theory Spec2Isabelle
  imports Complex_Main
begin

section \<open>Shared data: log entries, JavaScript errors, the error sink\<close>

text \<open>
  The ingestion pipeline of the repository has four stream stages:
  \<^verbatim>\<open>LogGeneratorStream\<close> (generate-logs.ts), \<^verbatim>\<open>LogMetricsCollector\<close>
  (transforms/log-metrics-collector.ts), \<^verbatim>\<open>BulkInsertTransform\<close> (bulk-insert.ts) and
  \<^verbatim>\<open>ProgressTracker\<close> (progress-tracker.ts). Each class is embedded as a record of its
  private fields and one function per method; a method that mutates \<^verbatim>\<open>this\<close> returns the
  updated record.

  JavaScript numbers are modelled by \<^typ>\<open>nat\<close> and \<^typ>\<open>int\<close> where the code counts,
  by \<^typ>\<open>int\<close> for \<^verbatim>\<open>Date.now()\<close> readings (milliseconds), and by \<^typ>\<open>real\<close> for
  measured quantities; rounding of IEEE doubles is not modelled.
\<close>

datatype level = Trace | Debug | Info | Warn | Error | Fatal

datatype environment = Production | Staging | Development

datatype category = Application | Security | Performance | Audit | System

record service_info =
  service_name :: string
  service_environment :: environment

record entry_error =
  error_type :: string
  error_message :: string
  stack_trace :: string
  code :: string

record entry_metrics =
  cpu_usage :: real
  memory_mb :: real
  response_time_ms :: real
  db_query_time_ms :: real

record geo_info =
  country :: string
  city :: string

text \<open>
  \<^verbatim>\<open>LogEntry\<close> (types/log.types.ts), with the fields the pipeline stages read. The field
  \<^verbatim>\<open>id\<close> is called \<open>entry_id\<close>, \<^verbatim>\<open>error?\<close> is an option.
\<close>

record LogEntry =
  entry_id :: string
  service :: service_info
  level :: level
  category :: category
  error :: "entry_error option"
  metrics :: entry_metrics
  tags :: "string list"
  geo :: geo_info

text \<open>A JavaScript \<^verbatim>\<open>Error\<close> object: the three properties the error logger reads.\<close>

record js_error =
  name :: string
  message :: string
  stack :: "string option"

text \<open>
  The fixture of the test suite (tests/helpers/log-fixtures.ts, \<^verbatim>\<open>createLogEntry()\<close> with
  no override); an override is a record update of it.
\<close>

definition createLogEntry :: LogEntry where
  "createLogEntry =
     \<lparr> entry_id = ''log-1'',
       service = \<lparr> service_name = ''api-gateway'', service_environment = Production \<rparr>,
       level = Info,
       category = Application,
       error = None,
       metrics = \<lparr> cpu_usage = 12.5, memory_mb = 512, response_time_ms = 150,
                   db_query_time_ms = 20 \<rparr>,
       tags = [''api-gateway''],
       geo = \<lparr> country = ''US'', city = ''Seattle'' \<rparr> \<rparr>"

section \<open>Bulk wire format: \<^verbatim>\<open>serializeNdjsonBatch\<close>\<close>

definition newline :: char where
  "newline = CHR 0x0A"

definition hex_digit :: "nat \<Rightarrow> char" where
  "hex_digit n = ''0123456789abcdef'' ! n"

text \<open>
  \<^verbatim>\<open>JSON.stringify\<close> of a string (ECMAScript QuoteJSONString): the two-character escapes,
  \<^verbatim>\<open>\u00XX\<close> for the other control characters, every other character as it is.
\<close>

definition quote_char :: "char \<Rightarrow> string" where
  "quote_char c =
     (if c = CHR 0x08 then [CHR 0x5C, CHR ''b'']
      else if c = CHR 0x09 then [CHR 0x5C, CHR ''t'']
      else if c = CHR 0x0A then [CHR 0x5C, CHR ''n'']
      else if c = CHR 0x0C then [CHR 0x5C, CHR ''f'']
      else if c = CHR 0x0D then [CHR 0x5C, CHR ''r'']
      else if c = CHR 0x22 then [CHR 0x5C, CHR 0x22]
      else if c = CHR 0x5C then [CHR 0x5C, CHR 0x5C]
      else if (of_char c :: nat) < 32
        then [CHR 0x5C, CHR ''u'', CHR ''0'', CHR ''0'',
              hex_digit (of_char c div 16), hex_digit (of_char c mod 16)]
      else [c])"

definition QuoteJSONString :: "string \<Rightarrow> string" where
  "QuoteJSONString s = [CHR 0x22] @ concat (map quote_char s) @ [CHR 0x22]"

text \<open>\<^verbatim>\<open>JSON.stringify({ index: { _index: this.options.indexName } })\<close>\<close>

definition stringify_action :: "string \<Rightarrow> string" where
  \<open>stringify_action indexName = ''{"index":{"_index":'' @ QuoteJSONString indexName @ ''}}''\<close>

text \<open>
  \<^verbatim>\<open>JSON.stringify(doc)\<close> is a parameter \<open>JSON_stringify\<close> of the model: it returns the
  encoded text or throws. The loop of \<^verbatim>\<open>serializeNdjsonBatch\<close> pushes two lines per
  document on \<^verbatim>\<open>lines\<close>; the first throw leaves the function.
\<close>

fun push_lines ::
  "(LogEntry \<Rightarrow> js_error + string) \<Rightarrow> string \<Rightarrow> string list \<Rightarrow> LogEntry list
    \<Rightarrow> js_error + string list" where
  "push_lines JSON_stringify indexName lines [] = Inr lines"
| "push_lines JSON_stringify indexName lines (doc # rest) =
     (case JSON_stringify doc of
        Inl e \<Rightarrow> Inl e
      | Inr s \<Rightarrow> push_lines JSON_stringify indexName (lines @ [stringify_action indexName, s]) rest)"

text \<open>\<^verbatim>\<open>Array.prototype.join\<close>\<close>

fun join :: "string \<Rightarrow> string list \<Rightarrow> string" where
  "join sep [] = []"
| "join sep [l] = l"
| "join sep (l # m # ls) = l @ sep @ join sep (m # ls)"

definition serializeNdjsonBatch ::
  "(LogEntry \<Rightarrow> js_error + string) \<Rightarrow> string \<Rightarrow> LogEntry list \<Rightarrow> js_error + string" where
  "serializeNdjsonBatch JSON_stringify indexName batch =
     (case push_lines JSON_stringify indexName [] batch of
        Inl e \<Rightarrow> Inl e
      | Inr lines \<Rightarrow> Inr (join [newline] lines @ [newline]))"

section \<open>Metrics collector: \<^verbatim>\<open>LogMetricsCollector\<close>\<close>

text \<open>
  The trackers start at \<^verbatim>\<open>Number.POSITIVE_INFINITY\<close> and \<^verbatim>\<open>Number.NEGATIVE_INFINITY\<close>,
  so their minimum and maximum are numbers extended by the two infinities. The observed
  values themselves are finite.
\<close>

datatype extnum = NEGATIVE_INFINITY | Finite real | POSITIVE_INFINITY

text \<open>\<^verbatim>\<open>Math.min(tracker.min, v)\<close> and \<^verbatim>\<open>Math.max(tracker.max, v)\<close> for a finite \<open>v\<close>.\<close>

fun Math_min :: "extnum \<Rightarrow> real \<Rightarrow> extnum" where
  "Math_min NEGATIVE_INFINITY v = NEGATIVE_INFINITY"
| "Math_min (Finite a) v = Finite (min a v)"
| "Math_min POSITIVE_INFINITY v = Finite v"

fun Math_max :: "extnum \<Rightarrow> real \<Rightarrow> extnum" where
  "Math_max NEGATIVE_INFINITY v = Finite v"
| "Math_max (Finite a) v = Finite (max a v)"
| "Math_max POSITIVE_INFINITY v = POSITIVE_INFINITY"

text \<open>
  \<^verbatim>\<open>parseFloat(x.toFixed(2))\<close>: the nearest multiple of \<open>1/100\<close>, a tie going away from
  zero (\<^verbatim>\<open>toFixed\<close> picks the larger \<open>n\<close> for the absolute value). The numbers of the
  collector are modelled as reals: what is rounded here is the real number, not the
  double nearest to it, and the result is not rounded to a double again.
\<close>

definition toFixed2 :: "real \<Rightarrow> real" where
  "toFixed2 x =
     (if x < 0 then - (real_of_int \<lfloor>- x * 100 + 1 / 2\<rfloor> / 100)
      else real_of_int \<lfloor>x * 100 + 1 / 2\<rfloor> / 100)"

fun toFixed2_ext :: "extnum \<Rightarrow> extnum" where
  "toFixed2_ext (Finite a) = Finite (toFixed2 a)"
| "toFixed2_ext NEGATIVE_INFINITY = NEGATIVE_INFINITY"
| "toFixed2_ext POSITIVE_INFINITY = POSITIVE_INFINITY"

record ResponseTimeTracker =
  rt_values :: "real list"
  rt_min :: extnum
  rt_max :: extnum
  rt_total :: real

record NumericTracker =
  nt_min :: extnum
  nt_max :: extnum
  nt_total :: real

text \<open>
  The private fields of the collector. The counters indexed by an enumeration are
  functions, those indexed by a string are maps (a missing key reads \<^verbatim>\<open>undefined\<close>).
  The field \<^verbatim>\<open>total\<close> is called \<open>total_seen\<close>.
\<close>

record LogMetricsCollector =
  total_seen :: nat
  levelCounts :: "level \<Rightarrow> nat"
  serviceCounts :: "string \<rightharpoonup> nat"
  environmentCounts :: "environment \<Rightarrow> nat"
  categoryCounts :: "category \<Rightarrow> nat"
  errorCount :: nat
  responseTime :: ResponseTimeTracker
  cpuUsage :: NumericTracker
  memoryMb :: NumericTracker
  geoCounts :: "string \<rightharpoonup> nat"
  tagCounts :: "string \<rightharpoonup> nat"

definition new_LogMetricsCollector :: LogMetricsCollector where
  "new_LogMetricsCollector =
     \<lparr> total_seen = 0,
       levelCounts = (\<lambda>_. 0),
       serviceCounts = Map.empty,
       environmentCounts = (\<lambda>_. 0),
       categoryCounts = (\<lambda>_. 0),
       errorCount = 0,
       responseTime = \<lparr> rt_values = [], rt_min = POSITIVE_INFINITY,
                        rt_max = NEGATIVE_INFINITY, rt_total = 0 \<rparr>,
       cpuUsage = \<lparr> nt_min = POSITIVE_INFINITY, nt_max = NEGATIVE_INFINITY, nt_total = 0 \<rparr>,
       memoryMb = \<lparr> nt_min = POSITIVE_INFINITY, nt_max = NEGATIVE_INFINITY, nt_total = 0 \<rparr>,
       geoCounts = Map.empty,
       tagCounts = Map.empty \<rparr>"

text \<open>
  \<^verbatim>\<open>counts[key] = (counts[key] || 0) + 1\<close>, over the own properties of the object \<^verbatim>\<open>counts\<close>:
  a key that names a property inherited from \<^verbatim>\<open>Object.prototype\<close> (\<^verbatim>\<open>constructor\<close>, say), for
  which \<^verbatim>\<open>counts[key]\<close> is not \<^verbatim>\<open>undefined\<close> before the first write, is not modelled.
\<close>

definition increment :: "(string \<rightharpoonup> nat) \<Rightarrow> string \<Rightarrow> (string \<rightharpoonup> nat)" where
  "increment counts key = counts(key \<mapsto> (case counts key of None \<Rightarrow> 0 | Some c \<Rightarrow> c) + 1)"

definition observe_rt :: "ResponseTimeTracker \<Rightarrow> real \<Rightarrow> ResponseTimeTracker" where
  "observe_rt t v =
     \<lparr> rt_values = rt_values t @ [v],
       rt_min = Math_min (rt_min t) v,
       rt_max = Math_max (rt_max t) v,
       rt_total = rt_total t + v \<rparr>"

definition observe :: "NumericTracker \<Rightarrow> real \<Rightarrow> NumericTracker" where
  "observe t v =
     \<lparr> nt_min = Math_min (nt_min t) v,
       nt_max = Math_max (nt_max t) v,
       nt_total = nt_total t + v \<rparr>"

text \<open>
  \<^verbatim>\<open>_transform(chunk)\<close>: the updated collector; the chunk itself is pushed on unchanged and
  the callback is called without an error.
\<close>

definition collector_transform :: "LogMetricsCollector \<Rightarrow> LogEntry \<Rightarrow> LogMetricsCollector" where
  "collector_transform c chunk =
     c\<lparr> total_seen := total_seen c + 1,
        levelCounts := (levelCounts c)(level chunk := levelCounts c (level chunk) + 1),
        serviceCounts := increment (serviceCounts c) (service_name (service chunk)),
        environmentCounts := (environmentCounts c)
           (service_environment (service chunk) :=
              environmentCounts c (service_environment (service chunk)) + 1),
        categoryCounts := (categoryCounts c)(category chunk := categoryCounts c (category chunk) + 1),
        errorCount := (if error chunk \<noteq> None then errorCount c + 1 else errorCount c),
        responseTime := observe_rt (responseTime c) (response_time_ms (metrics chunk)),
        cpuUsage := observe (cpuUsage c) (cpu_usage (metrics chunk)),
        memoryMb := observe (memoryMb c) (memory_mb (metrics chunk)),
        geoCounts := increment (geoCounts c) (country (geo chunk) @ ''|'' @ city (geo chunk)),
        tagCounts := foldl increment (tagCounts c) (tags chunk) \<rparr>"

record response_time_summary =
  min_rt :: extnum
  max_rt :: extnum
  avg_rt :: real
  p95 :: real

record numeric_summary =
  min_of :: extnum
  max_of :: extnum
  avg_of :: real

record LogMetricsSnapshot =
  totalGenerated :: nat
  snap_levelCounts :: "level \<Rightarrow> nat"
  snap_serviceCounts :: "string \<rightharpoonup> nat"
  snap_environmentCounts :: "environment \<Rightarrow> nat"
  snap_categoryCounts :: "category \<Rightarrow> nat"
  snap_errorCount :: nat
  snap_responseTime :: response_time_summary
  snap_cpuUsage :: numeric_summary
  snap_memoryMb :: numeric_summary
  snap_geoCounts :: "string \<rightharpoonup> nat"
  snap_tagCounts :: "string \<rightharpoonup> nat"

text \<open>
  \<^verbatim>\<open>getSnapshot()\<close>. The comparator \<^verbatim>\<open>(a, b) => a - b\<close> sorts ascending; \<^verbatim>\<open>n * 0.95\<close> is
  the real product.
\<close>

definition getSnapshot :: "LogMetricsCollector \<Rightarrow> LogMetricsSnapshot" where
  "getSnapshot c =
     (let avgResponseTime =
            (if total_seen c > 0 then rt_total (responseTime c) / real (total_seen c) else 0);
          avgCpu = (if total_seen c > 0 then nt_total (cpuUsage c) / real (total_seen c) else 0);
          avgMemory = (if total_seen c > 0 then nt_total (memoryMb c) / real (total_seen c) else 0);
          sortedResponseTimes = sort (rt_values (responseTime c));
          p95Index =
            (if length sortedResponseTimes = 0 then 0
             else nat \<lfloor>real (length sortedResponseTimes) * 0.95\<rfloor>);
          p95 =
            (if length sortedResponseTimes = 0 then 0
             else sortedResponseTimes ! (min p95Index (length sortedResponseTimes - 1)))
      in \<lparr> totalGenerated = total_seen c,
           snap_levelCounts = levelCounts c,
           snap_serviceCounts = serviceCounts c,
           snap_environmentCounts = environmentCounts c,
           snap_categoryCounts = categoryCounts c,
           snap_errorCount = errorCount c,
           snap_responseTime =
             \<lparr> min_rt = (if rt_min (responseTime c) = POSITIVE_INFINITY then Finite 0
                         else rt_min (responseTime c)),
               max_rt = (if rt_max (responseTime c) = NEGATIVE_INFINITY then Finite 0
                         else rt_max (responseTime c)),
               avg_rt = toFixed2 avgResponseTime,
               p95 = p95 \<rparr>,
           snap_cpuUsage =
             \<lparr> min_of = (if nt_min (cpuUsage c) = POSITIVE_INFINITY then Finite 0
                         else toFixed2_ext (nt_min (cpuUsage c))),
               max_of = (if nt_max (cpuUsage c) = NEGATIVE_INFINITY then Finite 0
                         else toFixed2_ext (nt_max (cpuUsage c))),
               avg_of = toFixed2 avgCpu \<rparr>,
           snap_memoryMb =
             \<lparr> min_of = (if nt_min (memoryMb c) = POSITIVE_INFINITY then Finite 0
                         else nt_min (memoryMb c)),
               max_of = (if nt_max (memoryMb c) = NEGATIVE_INFINITY then Finite 0
                         else nt_max (memoryMb c)),
               avg_of = toFixed2 avgMemory \<rparr>,
           snap_geoCounts = geoCounts c,
           snap_tagCounts = tagCounts c \<rparr>)"

text \<open>Writing a list of entries to the collector, one \<^verbatim>\<open>_transform\<close> call each.\<close>

definition collect :: "LogMetricsCollector \<Rightarrow> LogEntry list \<Rightarrow> LogMetricsCollector" where
  "collect c logs = foldl collector_transform c logs"

section \<open>Progress reporter: \<^verbatim>\<open>ProgressTracker\<close>\<close>

text \<open>The progress event \<^verbatim>\<open>{ inserted, total }\<close> that the uploader pushes per settled batch.\<close>

record ProgressData =
  inserted :: int
  total :: int

text \<open>
  The fields of the tracker, and \<open>printed\<close>: the calls of \<^verbatim>\<open>console.log\<close> so far, each
  with the clock reading \<^verbatim>\<open>now\<close> and the event from which its status line is formatted.
\<close>

record ProgressTracker =
  startTime :: int
  lastUpdate :: int
  expectedTotal :: int
  printed :: "(int \<times> ProgressData) list"

text \<open>The constructor reads \<^verbatim>\<open>Date.now()\<close> twice.\<close>

definition new_ProgressTracker :: "int \<Rightarrow> int \<Rightarrow> int \<Rightarrow> ProgressTracker" where
  "new_ProgressTracker expected now1 now2 =
     \<lparr> startTime = now1, lastUpdate = now2, expectedTotal = expected, printed = [] \<rparr>"

text \<open>\<^verbatim>\<open>_transform(chunk)\<close>, with the reading \<open>now\<close> of \<^verbatim>\<open>Date.now()\<close>.\<close>

definition tracker_transform :: "ProgressTracker \<Rightarrow> ProgressData \<times> int \<Rightarrow> ProgressTracker" where
  "tracker_transform t ev =
     (case ev of (chunk, now) \<Rightarrow>
        if now - lastUpdate t > 2000
        then t\<lparr> printed := printed t @ [(now, chunk)], lastUpdate := now \<rparr>
        else t)"

text \<open>A sequence of progress events, each with its arrival time.\<close>

definition track :: "ProgressTracker \<Rightarrow> (ProgressData \<times> int) list \<Rightarrow> ProgressTracker" where
  "track t evs = foldl tracker_transform t evs"

text \<open>
  The invariant of the tracker: \<^verbatim>\<open>lastUpdate\<close> is the time of the latest status line, or
  the constructor's reading \<open>now2\<close> when none was printed; no status line is later than
  \<^verbatim>\<open>lastUpdate\<close>; the status lines are pairwise more than 2000 ms apart.
\<close>

definition tracker_inv :: "int \<Rightarrow> ProgressTracker \<Rightarrow> bool" where
  "tracker_inv now2 t \<longleftrightarrow>
     lastUpdate t = (if printed t = [] then now2 else fst (last (printed t)))
     \<and> list_all (\<lambda>a. a \<le> lastUpdate t) (now2 # map fst (printed t))
     \<and> sorted_wrt (\<lambda>a b. b - a > 2000) (now2 # map fst (printed t))"

section \<open>Record source: \<^verbatim>\<open>LogGeneratorStream\<close>\<close>

definition DEFAULT_CHUNK_SIZE :: nat where
  "DEFAULT_CHUNK_SIZE = 100"

text \<open>
  The fields \<^verbatim>\<open>generated\<close>, \<^verbatim>\<open>total\<close> (here \<open>total_logs\<close>) and \<^verbatim>\<open>baseDate\<close> of the stream,
  and what it has done so far: \<open>calls\<close>, the indices \<^verbatim>\<open>generatorFn\<close> was called with;
  \<open>chunks\<close>, the records pushed, one list per \<^verbatim>\<open>setImmediate\<close> callback; \<open>ended\<close>, whether
  \<^verbatim>\<open>push(null)\<close> has signalled the end. The generator function is a parameter
  \<open>generatorFn index baseDate\<close>.
\<close>

record LogGeneratorStream =
  generated :: nat
  total_logs :: nat
  baseDate :: int
  calls :: "nat list"
  chunks :: "LogEntry list list"
  ended :: bool

definition new_LogGeneratorStream :: "nat \<Rightarrow> int \<Rightarrow> LogGeneratorStream" where
  "new_LogGeneratorStream n date =
     \<lparr> generated = 0, total_logs = n, baseDate = date, calls = [], chunks = [], ended = False \<rparr>"

text \<open>
  The loop of the \<^verbatim>\<open>setImmediate\<close> callback, \<open>k\<close> iterations left; \<open>pushed\<close> collects the
  records of this callback.
\<close>

fun generate_chunk ::
  "(nat \<Rightarrow> int \<Rightarrow> LogEntry) \<Rightarrow> nat \<Rightarrow> LogEntry list \<Rightarrow> LogGeneratorStream
    \<Rightarrow> LogEntry list \<times> LogGeneratorStream" where
  "generate_chunk generatorFn 0 pushed s = (pushed, s)"
| "generate_chunk generatorFn (Suc k) pushed s =
     (let log = generatorFn (generated s) (baseDate s)
      in generate_chunk generatorFn k (pushed @ [log])
           (s\<lparr> calls := calls s @ [generated s], generated := generated s + 1 \<rparr>))"

text \<open>
  \<^verbatim>\<open>_read()\<close> together with the callback it schedules. A Readable does not call \<^verbatim>\<open>_read\<close>
  again before the pending call has pushed, so the callback runs before the next \<^verbatim>\<open>_read\<close>.
\<close>

definition source_read :: "(nat \<Rightarrow> int \<Rightarrow> LogEntry) \<Rightarrow> LogGeneratorStream \<Rightarrow> LogGeneratorStream" where
  "source_read generatorFn s =
     (if generated s \<ge> total_logs s then s\<lparr> ended := True \<rparr>
      else
        let chunkSize = min DEFAULT_CHUNK_SIZE (total_logs s - generated s);
            (pushed, s') = generate_chunk generatorFn chunkSize [] s
        in s'\<lparr> chunks := chunks s' @ [pushed] \<rparr>)"

text \<open>The consumer keeps reading until the stream has signalled its end.\<close>

function read_all :: "(nat \<Rightarrow> int \<Rightarrow> LogEntry) \<Rightarrow> LogGeneratorStream \<Rightarrow> LogGeneratorStream" where
  "read_all generatorFn s =
     (if ended s then s else read_all generatorFn (source_read generatorFn s))"
  by pat_completeness auto

text \<open>Every read either ends the stream or generates at least one record.\<close>

termination
proof (relation "measure (\<lambda>(generatorFn, s).
          (total_logs s - generated s) + (if ended s then 0 else 1))")
  show "wf (measure (\<lambda>(generatorFn, s).
          (total_logs s - generated s) + (if ended s then 0 else 1)))"
    by simp
next
  fix generatorFn :: "nat \<Rightarrow> int \<Rightarrow> LogEntry" and s :: LogGeneratorStream
  assume open_s: "\<not> ended s"
  have chunk: "generated (snd (generate_chunk generatorFn k pushed s')) = generated s' + k
      \<and> total_logs (snd (generate_chunk generatorFn k pushed s')) = total_logs s'
      \<and> ended (snd (generate_chunk generatorFn k pushed s')) = ended s'"
    for k pushed s'
    by (induction k arbitrary: pushed s') (simp_all add: Let_def)
  show "((generatorFn, source_read generatorFn s), (generatorFn, s))
      \<in> measure (\<lambda>(generatorFn, s). (total_logs s - generated s) + (if ended s then 0 else 1))"
  proof (cases "generated s \<ge> total_logs s")
    case True
    with open_s show ?thesis by (simp add: source_read_def)
  next
    case False
    then have "min DEFAULT_CHUNK_SIZE (total_logs s - generated s) > 0"
      by (simp add: DEFAULT_CHUNK_SIZE_def)
    with False open_s
      chunk[of "min DEFAULT_CHUNK_SIZE (total_logs s - generated s)" "[]" s]
    show ?thesis
      by (simp add: source_read_def Let_def split_beta)
  qed
qed

declare read_all.simps [simp del]

section \<open>Error sink: \<^verbatim>\<open>ErrorLogger\<close>\<close>

datatype error_category = Insertion | Stream | Connection | Serialization | Unknown

text \<open>The \<^verbatim>\<open>{ type, reason }\<close> object of a rejected bulk item.\<close>

record opensearch_error =
  os_type :: string
  os_reason :: string

record entry_details =
  documentId :: "string option"
  document :: "LogEntry option"
  details_batchIndex :: "nat option"
  errorCode :: "string option"
  stackTrace :: "string option"
  opensearchError :: "opensearch_error option"

text \<open>
  \<^verbatim>\<open>ErrorLogEntry\<close>; its \<^verbatim>\<open>timestamp\<close>, the wall clock at the time of logging, is left out.
\<close>

record ErrorLogEntry =
  errorType :: error_category
  source :: string
  log_message :: string
  details :: entry_details

text \<open>
  The logger keeps the entries in memory (\<^verbatim>\<open>errors\<close>) until \<^verbatim>\<open>flush()\<close> appends them to
  the JSON file at \<^verbatim>\<open>logFilePath\<close>; \<open>logFile\<close> is the content of that file (empty when it
  does not exist) and \<open>writable\<close> tells whether reading and writing it succeeds.
\<close>

record ErrorLogger =
  errors :: "ErrorLogEntry list"
  logFile :: "ErrorLogEntry list"
  writable :: bool

definition maxErrorsInMemory :: nat where
  "maxErrorsInMemory = 1000"

definition flush :: "ErrorLogger \<Rightarrow> ErrorLogger" where
  "flush lg =
     (if length (errors lg) = 0 then lg
      else if writable lg then lg\<lparr> logFile := logFile lg @ errors lg, errors := [] \<rparr>
      else lg)"

definition log_entry :: "ErrorLogger \<Rightarrow> ErrorLogEntry \<Rightarrow> ErrorLogger" where
  "log_entry lg entry =
     (let lg' = lg\<lparr> errors := errors lg @ [entry] \<rparr>
      in if length (errors lg') \<ge> maxErrorsInMemory then flush lg' else lg')"

definition logInsertionError ::
  "ErrorLogger \<Rightarrow> string \<Rightarrow> string \<Rightarrow> string option \<Rightarrow> LogEntry option \<Rightarrow> nat option
    \<Rightarrow> opensearch_error option \<Rightarrow> ErrorLogger" where
  "logInsertionError lg src msg docId doc bIndex osError =
     log_entry lg
       \<lparr> errorType = Insertion, source = src, log_message = msg,
         details = \<lparr> documentId = docId, document = doc, details_batchIndex = bIndex,
                     errorCode = None, stackTrace = None, opensearchError = osError \<rparr> \<rparr>"

definition logStreamError ::
  "ErrorLogger \<Rightarrow> string \<Rightarrow> string \<Rightarrow> js_error \<Rightarrow> LogEntry option \<Rightarrow> ErrorLogger" where
  "logStreamError lg src msg err doc =
     log_entry lg
       \<lparr> errorType = Stream, source = src, log_message = msg,
         details = \<lparr> documentId = None, document = doc, details_batchIndex = None,
                     errorCode = Some (name err), stackTrace = stack err,
                     opensearchError = None \<rparr> \<rparr>"

definition logConnectionError :: "ErrorLogger \<Rightarrow> string \<Rightarrow> string \<Rightarrow> js_error \<Rightarrow> ErrorLogger" where
  "logConnectionError lg src msg err =
     log_entry lg
       \<lparr> errorType = Connection, source = src, log_message = msg,
         details = \<lparr> documentId = None, document = None, details_batchIndex = None,
                     errorCode = Some (name err), stackTrace = stack err,
                     opensearchError = None \<rparr> \<rparr>"

definition logSerializationError ::
  "ErrorLogger \<Rightarrow> string \<Rightarrow> string \<Rightarrow> js_error \<Rightarrow> LogEntry option \<Rightarrow> ErrorLogger" where
  "logSerializationError lg src msg err doc =
     log_entry lg
       \<lparr> errorType = Serialization, source = src, log_message = msg,
         details = \<lparr> documentId = None, document = doc, details_batchIndex = None,
                     errorCode = Some (name err), stackTrace = stack err,
                     opensearchError = None \<rparr> \<rparr>"

text \<open>Everything the sink has received, in order: the file, then the entries in memory.\<close>

definition logged :: "ErrorLogger \<Rightarrow> ErrorLogEntry list" where
  "logged lg = logFile lg @ errors lg"

text \<open>A number in a template string: its decimal digits.\<close>

fun show_nat :: "nat \<Rightarrow> string" where
  "show_nat n =
     (if n < 10 then [''0123456789'' ! n]
      else show_nat (n div 10) @ [''0123456789'' ! (n mod 10)])"

declare show_nat.simps [simp del]

section \<open>Batch uploader: \<^verbatim>\<open>BulkInsertTransform\<close>\<close>

record BulkInsertOptions =
  indexName :: string
  batchSize :: nat
  opt_concurrency :: "nat option"
  opt_errorLogger :: "ErrorLogger option"

text \<open>
  The private \<^verbatim>\<open>metrics\<close> object has the type \<^verbatim>\<open>Omit<BulkInsertMetrics, "averageBatchSize">\<close>;
  \<^verbatim>\<open>BulkInsertMetrics\<close> extends it by that field.
\<close>

record BulkInsertCounters =
  batches :: nat
  totalInserted :: int
  failedDocuments :: nat
  totalDurationMs :: int
  averageBatchDurationMs :: real
  maxBatchDurationMs :: int


text \<open>The body of a bulk response: \<^verbatim>\<open>errors\<close> and \<^verbatim>\<open>items\<close>, an item being \<^verbatim>\<open>{ index?: { error? } }\<close>.\<close>

record index_result =
  result_error :: "opensearch_error option"

record bulk_item =
  index :: "index_result option"

record bulk_response_body =
  body_errors :: bool
  items :: "bulk_item list"

text \<open>\<^verbatim>\<open>item.index?.error\<close>\<close>

definition item_error :: "bulk_item \<Rightarrow> opensearch_error option" where
  "item_error item = (case index item of None \<Rightarrow> None | Some r \<Rightarrow> result_error r)"

text \<open>
  A call of \<^verbatim>\<open>sendBatch\<close> that has issued its request and waits for
  \<^verbatim>\<open>opensearchClient.bulk\<close>: its local variables.
\<close>

record upload_task =
  currentBatchIndex :: nat
  batch :: "LogEntry list"
  body :: string
  start :: int

text \<open>
  The stream is in one of five phases: ready for the next \<^verbatim>\<open>_transform\<close> or \<^verbatim>\<open>_flush\<close> call;
  inside \<^verbatim>\<open>_transform\<close> at \<^verbatim>\<open>await this.waitForAvailableSlot()\<close>; inside \<^verbatim>\<open>_flush\<close> at
  \<^verbatim>\<open>await Promise.all(...)\<close>; destroyed; and gone with its process, which ends on an
  unhandled promise rejection (by the \<^verbatim>\<open>unhandledRejection\<close> handler of stream-ingestion.ts,
  and by the default of Node from version 15 on in the other entry points).
\<close>

datatype phase = Accepting | AwaitingSlot | Draining | Closed | Exited

text \<open>
  The private fields of the class (\<^verbatim>\<open>this.totalInserted\<close> is \<open>stream_totalInserted\<close>,
  \<^verbatim>\<open>this.metrics\<close> is \<open>counters\<close>; a promise in \<^verbatim>\<open>pendingFlushes\<close> is named by the index of
  its batch), followed by the state of the run around them: the requests in flight; every
  request handed to \<^verbatim>\<open>opensearchClient.bulk\<close> so far, in order; the promises that a
  \<^verbatim>\<open>Promise.race\<close> or \<^verbatim>\<open>Promise.all\<close> has attached a handler to; the progress events handed
  to \<^verbatim>\<open>this.push\<close>; the arguments the stream callbacks were called with (\<open>None\<close> for a call
  without an error); and the phase.
\<close>

record BulkInsertTransform =
  buffer :: "LogEntry list"
  stream_totalInserted :: int
  pendingFlushes :: "nat list"
  flushError :: "js_error option"
  batchIndex :: nat
  counters :: BulkInsertCounters
  errorLogger :: "ErrorLogger option"
  inflight :: "upload_task list"
  requests :: "upload_task list"
  handled :: "nat list"
  pushed :: "ProgressData list"
  callbacks :: "js_error option list"
  phase :: phase

text \<open>\<^verbatim>\<open>Math.max(1, options.concurrency ?? 1)\<close>\<close>

definition concurrency :: "BulkInsertOptions \<Rightarrow> nat" where
  "concurrency options = max 1 (case opt_concurrency options of None \<Rightarrow> 1 | Some c \<Rightarrow> c)"

definition new_BulkInsertTransform :: "BulkInsertOptions \<Rightarrow> BulkInsertTransform" where
  "new_BulkInsertTransform options =
     \<lparr> buffer = [], stream_totalInserted = 0, pendingFlushes = [], flushError = None,
       batchIndex = 0,
       counters = \<lparr> batches = 0, totalInserted = 0, failedDocuments = 0, totalDurationMs = 0,
                    averageBatchDurationMs = 0, maxBatchDurationMs = 0 \<rparr>,
       errorLogger = opt_errorLogger options,
       inflight = [], requests = [], handled = [], pushed = [], callbacks = [],
       phase = Accepting \<rparr>"

text \<open>
  \<^verbatim>\<open>stream.destroy(error)\<close>: the \<^verbatim>\<open>_destroy\<close> method, then the \<^verbatim>\<open>"error"\<close> listener that the
  constructor installed, if \<^verbatim>\<open>_destroy\<close> reports an error.
\<close>

definition destroy :: "js_error option \<Rightarrow> BulkInsertTransform \<Rightarrow> BulkInsertTransform" where
  "destroy err st =
     (let st1 = st\<lparr> pendingFlushes := [], buffer := [],
                    flushError := (case err of Some e \<Rightarrow> Some e | None \<Rightarrow> flushError st),
                    phase := Closed \<rparr>
      in case flushError st1 of
           None \<Rightarrow> st1
         | Some e \<Rightarrow>
             st1\<lparr> errorLogger :=
                    map_option (\<lambda>lg. logStreamError lg ''BulkInsertTransform''
                        (''Stream error in bulk insert: '' @ message e) e None)
                      (errorLogger st1) \<rparr>)"

text \<open>
  The callback of \<^verbatim>\<open>_transform\<close>: a call with an error makes the stream destroy itself, and
  no further chunk is delivered. The callback of \<^verbatim>\<open>_flush\<close>: the stream is destroyed with
  the error, or ends and destroys itself without one.
\<close>

definition callback :: "js_error option \<Rightarrow> BulkInsertTransform \<Rightarrow> BulkInsertTransform" where
  "callback err st =
     (let st1 = st\<lparr> callbacks := callbacks st @ [err] \<rparr>
      in case err of None \<Rightarrow> st1\<lparr> phase := Accepting \<rparr> | Some e \<Rightarrow> destroy (Some e) st1)"

definition flush_callback :: "js_error option \<Rightarrow> BulkInsertTransform \<Rightarrow> BulkInsertTransform" where
  "flush_callback err st = destroy err (st\<lparr> callbacks := callbacks st @ [err] \<rparr>)"

text \<open>
  \<^verbatim>\<open>sendBatch\<close> up to its \<^verbatim>\<open>await\<close>: the batch index is taken, the batch serialized, the
  clock read and the request issued. A serialization error is logged and thrown
  (\<open>Some\<close> in the first component).
\<close>

definition sendBatch_request ::
  "BulkInsertOptions \<Rightarrow> (LogEntry \<Rightarrow> js_error + string) \<Rightarrow> int \<Rightarrow> BulkInsertTransform
    \<Rightarrow> LogEntry list \<Rightarrow> js_error option \<times> BulkInsertTransform" where
  "sendBatch_request options JSON_stringify now st bat =
     (let current = batchIndex st;
          st1 = st\<lparr> batchIndex := batchIndex st + 1 \<rparr>
      in case serializeNdjsonBatch JSON_stringify (indexName options) bat of
           Inl err \<Rightarrow>
             (Some err,
              st1\<lparr> errorLogger :=
                     map_option (\<lambda>lg. logSerializationError lg ''BulkInsertTransform''
                         (''Failed to serialize batch '' @ show_nat current @ '': '' @ message err)
                         err (case bat of [] \<Rightarrow> None | doc # _ \<Rightarrow> Some doc))
                       (errorLogger st1) \<rparr>)
         | Inr text_body \<Rightarrow>
             (let task = \<lparr> currentBatchIndex = current, batch = bat, body = text_body,
                           start = now \<rparr>
              in (None,
                  st1\<lparr> inflight := inflight st1 @ [task],
                        requests := requests st1 @ [task] \<rparr>)))"

text \<open>\<^verbatim>\<open>Array.prototype.findIndex\<close>, \<open>None\<close> for \<open>-1\<close>.\<close>

fun findIndex :: "('a \<Rightarrow> bool) \<Rightarrow> 'a list \<Rightarrow> nat option" where
  "findIndex P [] = None"
| "findIndex P (x # xs) =
     (if P x then Some 0 else map_option Suc (findIndex P xs))"

text \<open>
  The body of the \<^verbatim>\<open>errors.forEach\<close> callback for the error item at position \<open>idx\<close> of
  \<^verbatim>\<open>errors\<close>: the record it blames is the one at the position of the first response item
  with an error of the same type.
\<close>

definition log_failed_item ::
  "bulk_item list \<Rightarrow> LogEntry list \<Rightarrow> nat \<Rightarrow> ErrorLogger \<Rightarrow> bulk_item \<times> nat \<Rightarrow> ErrorLogger" where
  "log_failed_item all_items bat current lg errorItem_idx =
     (case errorItem_idx of (errorItem, idx) \<Rightarrow>
        (case item_error errorItem of
           None \<Rightarrow> lg
         | Some item_err \<Rightarrow>
             let itemIndex =
                   findIndex (\<lambda>item. case item_error item of
                                        None \<Rightarrow> False
                                      | Some e \<Rightarrow> os_type e = os_type item_err) all_items;
                 docIndex = (case itemIndex of Some i \<Rightarrow> i | None \<Rightarrow> idx);
                 failedDoc = (if docIndex < length bat then Some (bat ! docIndex) else None)
             in logInsertionError lg ''BulkInsertTransform''
                  (''Document insertion failed: '' @ os_type item_err @ '' - '' @ os_reason item_err)
                  (map_option entry_id failedDoc) failedDoc (Some current)
                  (Some \<lparr> os_type = os_type item_err, os_reason = os_reason item_err \<rparr>)))"

text \<open>
  \<^verbatim>\<open>sendBatch\<close> after the request has resolved with \<open>response\<close>, the clock reading \<open>now\<close>.
  Output on the console is not part of the state.
\<close>

definition sendBatch_resolved ::
  "BulkInsertTransform \<Rightarrow> upload_task \<Rightarrow> bulk_response_body \<Rightarrow> int \<Rightarrow> BulkInsertTransform" where
  "sendBatch_resolved st task response now =
     (let batchDuration = now - start task;
          m = counters st;
          errs = (if body_errors response
                  then filter (\<lambda>item. item_error item \<noteq> None) (items response) else []);
          successfulDocuments = int (length (batch task)) - int (length errs);
          m1 = m\<lparr> batches := batches m + 1,
                  totalInserted := totalInserted m + successfulDocuments,
                  totalDurationMs := totalDurationMs m + batchDuration,
                  maxBatchDurationMs := max (maxBatchDurationMs m) batchDuration \<rparr>;
          m2 = (if length errs > 0
                then m1\<lparr> failedDocuments := failedDocuments m1 + length errs \<rparr> else m1);
          lg = (if length errs > 0
                then map_option
                       (\<lambda>lg. foldl (log_failed_item (items response) (batch task)
                                      (currentBatchIndex task)) lg
                               (zip errs [0..<length errs]))
                       (errorLogger st)
                else errorLogger st);
          new_total = stream_totalInserted st + successfulDocuments
      in st\<lparr> counters := m2, errorLogger := lg, stream_totalInserted := new_total,
             pushed := pushed st @ [\<lparr> inserted = successfulDocuments, total = new_total \<rparr>] \<rparr>)"

text \<open>\<^verbatim>\<open>sendBatch\<close> after the request has thrown \<open>err\<close>: the catch block logs and rethrows.\<close>

definition sendBatch_rejected ::
  "BulkInsertTransform \<Rightarrow> upload_task \<Rightarrow> js_error \<Rightarrow> BulkInsertTransform" where
  "sendBatch_rejected st task err =
     st\<lparr> errorLogger :=
           map_option (\<lambda>lg. logConnectionError lg ''BulkInsertTransform''
               (''Bulk insert request failed for batch '' @ show_nat (currentBatchIndex task)
                  @ '': '' @ message err) err)
             (errorLogger st) \<rparr>"

text \<open>
  \<^verbatim>\<open>scheduleFlush(batch)\<close>. The promise of a request in flight joins \<^verbatim>\<open>pendingFlushes\<close>. When
  \<^verbatim>\<open>sendBatch\<close> threw while serializing, its promise is rejected from the start: it is in
  the set when the caller looks at it, and the \<^verbatim>\<open>catch\<close> and \<^verbatim>\<open>finally\<close> handlers run as
  microtasks, before the caller resumes from its \<^verbatim>\<open>await\<close> and before any request settles;
  the error is latched and the promise leaves the set again (\<open>Some\<close> in the first
  component; \<open>pendingFlushes\<close> is given without this promise).
\<close>

definition scheduleFlush ::
  "BulkInsertOptions \<Rightarrow> (LogEntry \<Rightarrow> js_error + string) \<Rightarrow> int \<Rightarrow> BulkInsertTransform
    \<Rightarrow> LogEntry list \<Rightarrow> js_error option \<times> BulkInsertTransform" where
  "scheduleFlush options JSON_stringify now st bat =
     (if length bat = 0 then (None, st)
      else
        case sendBatch_request options JSON_stringify now st bat of
          (Some err, st1) \<Rightarrow> (Some err, st1\<lparr> flushError := Some err \<rparr>)
        | (None, st1) \<Rightarrow> (None, st1\<lparr> pendingFlushes := pendingFlushes st1 @ [batchIndex st] \<rparr>))"

text \<open>
  \<^verbatim>\<open>_transform(chunk)\<close> up to its callback or, when no slot is free, up to the \<^verbatim>\<open>await\<close> of
  \<^verbatim>\<open>Promise.race(this.pendingFlushes)\<close>, which attaches a handler to every promise of the
  set. A promise rejected from the start counts against the slots. When the race takes
  it, the race rejects with its error; when a slot is free, \<^verbatim>\<open>_transform\<close> finds the error
  latched and passes it to the callback, and the promise, which nothing has taken, is an
  unhandled rejection.
\<close>

definition uploader_transform ::
  "BulkInsertOptions \<Rightarrow> (LogEntry \<Rightarrow> js_error + string) \<Rightarrow> BulkInsertTransform \<Rightarrow> LogEntry \<Rightarrow> int
    \<Rightarrow> BulkInsertTransform" where
  "uploader_transform options JSON_stringify st chunk now =
     (let st1 = st\<lparr> buffer := buffer st @ [chunk] \<rparr>
      in if length (buffer st1) \<ge> batchSize options then
           (let bat = buffer st1;
                st2 = st1\<lparr> buffer := [] \<rparr>
            in case scheduleFlush options JSON_stringify now st2 bat of
                 (Some err, st3) \<Rightarrow>
                   if length (pendingFlushes st3) + 1 < concurrency options
                   then (callback (flushError st3) st3)\<lparr> phase := Exited \<rparr>
                   else callback (Some err)
                          (st3\<lparr> handled := handled st3 @ pendingFlushes st3 \<rparr>)
               | (None, st3) \<Rightarrow>
                   if length (pendingFlushes st3) < concurrency options
                   then callback (flushError st3) st3
                   else st3\<lparr> phase := AwaitingSlot,
                             handled := handled st3 @ pendingFlushes st3 \<rparr>)
         else callback None st1)"

text \<open>
  \<^verbatim>\<open>_flush()\<close> up to its callback or, when requests are outstanding, up to the \<^verbatim>\<open>await\<close> of
  \<^verbatim>\<open>Promise.all([...this.pendingFlushes])\<close>, which attaches a handler to every promise of
  the set and rejects at once with the error of a promise rejected from the start.
\<close>

definition uploader_flush ::
  "BulkInsertOptions \<Rightarrow> (LogEntry \<Rightarrow> js_error + string) \<Rightarrow> BulkInsertTransform \<Rightarrow> int
    \<Rightarrow> BulkInsertTransform" where
  "uploader_flush options JSON_stringify st now =
     (case (if length (buffer st) > 0
            then scheduleFlush options JSON_stringify now (st\<lparr> buffer := [] \<rparr>) (buffer st)
            else (None, st)) of
        (Some err, st1) \<Rightarrow>
          flush_callback (Some err) (st1\<lparr> handled := handled st1 @ pendingFlushes st1 \<rparr>)
      | (None, st1) \<Rightarrow>
          if pendingFlushes st1 = [] then flush_callback (flushError st1) st1
          else st1\<lparr> phase := Draining, handled := handled st1 @ pendingFlushes st1 \<rparr>)"

text \<open>
  The request of a batch settles and \<^verbatim>\<open>sendBatch\<close> finishes. On a throw the \<^verbatim>\<open>catch\<close> handler
  of \<^verbatim>\<open>scheduleFlush\<close> latches the error; in both cases the \<^verbatim>\<open>finally\<close> handler removes the
  promise from \<^verbatim>\<open>pendingFlushes\<close>.
\<close>

definition promise_resolved ::
  "BulkInsertTransform \<Rightarrow> upload_task \<Rightarrow> bulk_response_body \<Rightarrow> int \<Rightarrow> BulkInsertTransform" where
  "promise_resolved st task response now =
     (let st2 = sendBatch_resolved st task response now
      in st2\<lparr> pendingFlushes := removeAll (currentBatchIndex task) (pendingFlushes st2) \<rparr>)"

definition promise_rejected ::
  "BulkInsertTransform \<Rightarrow> upload_task \<Rightarrow> js_error \<Rightarrow> BulkInsertTransform" where
  "promise_rejected st task err =
     (let st2 = sendBatch_rejected st task err
      in st2\<lparr> flushError := Some err,
              pendingFlushes := removeAll (currentBatchIndex task) (pendingFlushes st2) \<rparr>)"

text \<open>
  Then the method that waits resumes. A \<^verbatim>\<open>_transform\<close> at \<^verbatim>\<open>Promise.race\<close> resumes with the
  first promise to settle: it checks \<^verbatim>\<open>flushError\<close> after a resolved one and passes the
  error of a rejected one to its callback. A \<^verbatim>\<open>_flush\<close> at \<^verbatim>\<open>Promise.all\<close> resumes once every
  promise has resolved, or with the first rejection. When no method waits, nothing else
  happens: the handler of an earlier race takes the rejection and has no effect.
\<close>

definition resume_resolved :: "BulkInsertTransform \<Rightarrow> BulkInsertTransform" where
  "resume_resolved st =
     (case phase st of
        AwaitingSlot \<Rightarrow> callback (flushError st) st
      | Draining \<Rightarrow> if pendingFlushes st = [] then flush_callback (flushError st) st else st
      | Accepting \<Rightarrow> st
      | Closed \<Rightarrow> st
      | Exited \<Rightarrow> st)"

definition resume_rejected :: "js_error \<Rightarrow> BulkInsertTransform \<Rightarrow> BulkInsertTransform" where
  "resume_rejected err st =
     (case phase st of
        AwaitingSlot \<Rightarrow> callback (Some err) st
      | Draining \<Rightarrow> flush_callback (Some err) st
      | Accepting \<Rightarrow> st
      | Closed \<Rightarrow> st
      | Exited \<Rightarrow> st)"

text \<open>
  The request of batch \<open>k\<close> settles, with a response or a throw; \<open>None\<close> when no request of
  batch \<open>k\<close> is in flight. The promise of a request that throws is rejected (the \<^verbatim>\<open>catch\<close>
  handler of \<^verbatim>\<open>scheduleFlush\<close> throws the error again); when no \<^verbatim>\<open>Promise.race\<close> or
  \<^verbatim>\<open>Promise.all\<close> has taken it, this is an unhandled rejection.
\<close>

definition uploader_settle ::
  "BulkInsertTransform \<Rightarrow> nat \<Rightarrow> js_error + bulk_response_body \<Rightarrow> int
    \<Rightarrow> BulkInsertTransform option" where
  "uploader_settle st k outcome now =
     (case find (\<lambda>t. currentBatchIndex t = k) (inflight st) of
        None \<Rightarrow> None
      | Some task \<Rightarrow>
          let st1 = st\<lparr> inflight := filter (\<lambda>t. currentBatchIndex t \<noteq> k) (inflight st) \<rparr>
          in (case outcome of
                Inr response \<Rightarrow> Some (resume_resolved (promise_resolved st1 task response now))
              | Inl err \<Rightarrow>
                  if k \<in> set (handled st)
                  then Some (resume_rejected err (promise_rejected st1 task err))
                  else Some ((promise_rejected st1 task err)\<lparr> phase := Exited \<rparr>)))"

text \<open>
  What happens to the stream, one event at a time: the stream machinery delivers a chunk
  to \<^verbatim>\<open>_transform\<close> or calls \<^verbatim>\<open>_flush\<close> at the end of the input (both only when the previous
  call has called back, and never after a destroy), or the bulk request of a batch
  settles. Each event carries the reading of \<^verbatim>\<open>Date.now()\<close> it makes. An event the stream
  cannot take in its phase gives \<open>None\<close>; once the process has ended there is no event.
\<close>

datatype event =
    Transform LogEntry int
  | Flush int
  | Settle nat "js_error + bulk_response_body" int

fun step ::
  "BulkInsertOptions \<Rightarrow> (LogEntry \<Rightarrow> js_error + string) \<Rightarrow> BulkInsertTransform \<Rightarrow> event
    \<Rightarrow> BulkInsertTransform option" where
  "step options JSON_stringify st (Transform chunk now) =
     (if phase st = Accepting then Some (uploader_transform options JSON_stringify st chunk now)
      else None)"
| "step options JSON_stringify st (Flush now) =
     (if phase st = Accepting then Some (uploader_flush options JSON_stringify st now)
      else None)"
| "step options JSON_stringify st (Settle k outcome now) =
     (if phase st = Exited then None else uploader_settle st k outcome now)"

fun run ::
  "BulkInsertOptions \<Rightarrow> (LogEntry \<Rightarrow> js_error + string) \<Rightarrow> BulkInsertTransform \<Rightarrow> event list
    \<Rightarrow> BulkInsertTransform option" where
  "run options JSON_stringify st [] = Some st"
| "run options JSON_stringify st (ev # evs) =
     (case step options JSON_stringify st ev of
        None \<Rightarrow> None
      | Some st' \<Rightarrow> run options JSON_stringify st' evs)"

fun is_Transform :: "event \<Rightarrow> bool" where
  "is_Transform (Transform chunk now) = True"
| "is_Transform (Flush now) = False"
| "is_Transform (Settle k outcome now) = False"

fun is_Flush :: "event \<Rightarrow> bool" where
  "is_Flush (Transform chunk now) = False"
| "is_Flush (Flush now) = True"
| "is_Flush (Settle k outcome now) = False"

text \<open>
  The invariant of batch formation while the input is open: after \<open>n\<close> chunks, unless the
  stream has been destroyed, the buffer holds fewer than \<^verbatim>\<open>batchSize\<close> records and the batches
  cut so far, all of full size, account for the rest.
\<close>

definition buffering :: "BulkInsertOptions \<Rightarrow> nat \<Rightarrow> BulkInsertTransform \<Rightarrow> bool" where
  "buffering options n st \<longleftrightarrow>
     phase st = Closed \<or> phase st = Exited
     \<or> ((phase st = Accepting \<or> phase st = AwaitingSlot)
        \<and> length (buffer st) < batchSize options
        \<and> batchIndex st * batchSize options + length (buffer st) = n)"

text \<open>The chunks that a run delivers to \<^verbatim>\<open>_transform\<close>, in order.\<close>

fun delivered :: "event list \<Rightarrow> LogEntry list" where
  "delivered [] = []"
| "delivered (Transform chunk now # evs) = chunk # delivered evs"
| "delivered (Flush now # evs) = delivered evs"
| "delivered (Settle k outcome now # evs) = delivered evs"

text \<open>
  The invariant of the requests while the input is open and every batch has serialized:
  each batch handed to \<^verbatim>\<open>sendBatch\<close> became a request, the requests carry full batches and
  the text these serialize to, and their batches followed by the buffer are the records
  \<open>recs\<close> received so far.
\<close>

definition batches_sent ::
  "BulkInsertOptions \<Rightarrow> (LogEntry \<Rightarrow> js_error + string) \<Rightarrow> LogEntry list
    \<Rightarrow> BulkInsertTransform \<Rightarrow> bool" where
  "batches_sent options JSON_stringify recs st \<longleftrightarrow>
     length (requests st) = batchIndex st
     \<and> concat (map batch (requests st)) @ buffer st = recs
     \<and> (\<forall>t\<in>set (requests st).
           length (batch t) = batchSize options
         \<and> serializeNdjsonBatch JSON_stringify (indexName options) (batch t) = Inr (body t))"



definition getTotalInserted :: "BulkInsertTransform \<Rightarrow> int" where
  "getTotalInserted st = stream_totalInserted st"


section \<open>A concrete run\<close>

text \<open>
  The set-up of the uploader's tests: index \<^verbatim>\<open>logs-test\<close>, batches of two, entries made by
  \<^verbatim>\<open>createLogEntry\<close>; here with two concurrency slots and an error logger. The encoder
  stands for \<^verbatim>\<open>JSON.stringify\<close>.
\<close>

definition scenario_options :: BulkInsertOptions where
  "scenario_options =
     \<lparr> indexName = ''logs-test'', batchSize = 2, opt_concurrency = Some 2,
       opt_errorLogger = Some \<lparr> errors = [], logFile = [], writable = True \<rparr> \<rparr>"

definition scenario_encode :: "LogEntry \<Rightarrow> string" where
  \<open>scenario_encode doc = ''{"id":'' @ QuoteJSONString (entry_id doc) @ ''}''\<close>

definition scenario_stringify :: "LogEntry \<Rightarrow> js_error + string" where
  "scenario_stringify doc = Inr (scenario_encode doc)"

definition log_1 :: LogEntry where
  "log_1 = createLogEntry\<lparr> entry_id := ''log-1'' \<rparr>"

definition log_2 :: LogEntry where
  "log_2 = createLogEntry\<lparr> entry_id := ''log-2'' \<rparr>"

definition log_3 :: LogEntry where
  "log_3 = createLogEntry\<lparr> entry_id := ''log-3'' \<rparr>"

definition log_4 :: LogEntry where
  "log_4 = createLogEntry\<lparr> entry_id := ''log-4'' \<rparr>"

definition log_5 :: LogEntry where
  "log_5 = createLogEntry\<lparr> entry_id := ''log-5'' \<rparr>"

definition connection_refused :: js_error where
  "connection_refused =
     \<lparr> name = ''ConnectionError'', message = ''connect ECONNREFUSED'', stack = None \<rparr>"


text \<open>The response of the mocked store in the test suite: one accepted item per record.\<close>

definition items_ok :: "nat \<Rightarrow> bulk_response_body" where
  "items_ok n =
     \<lparr> body_errors = False, items = replicate n \<lparr> index = Some \<lparr> result_error = None \<rparr> \<rparr> \<rparr>"

text \<open>The response of the test "tracks failed documents": the second item is rejected.\<close>

definition second_item_failed :: bulk_response_body where
  "second_item_failed =
     \<lparr> body_errors = True,
       items = [\<lparr> index = Some \<lparr> result_error = None \<rparr> \<rparr>,
                \<lparr> index = Some \<lparr> result_error =
                    Some \<lparr> os_type = ''mapper_parsing_exception'',
                           os_reason = ''failed to parse'' \<rparr> \<rparr> \<rparr>] \<rparr>"

text \<open>The second item is rejected, but the \<^verbatim>\<open>errors\<close> flag of the response is not set.\<close>

definition item_failed_flag_unset :: bulk_response_body where
  "item_failed_flag_unset =
     \<lparr> body_errors = False,
       items = [\<lparr> index = Some \<lparr> result_error = None \<rparr> \<rparr>,
                \<lparr> index = Some \<lparr> result_error =
                    Some \<lparr> os_type = ''mapper_parsing_exception'',
                           os_reason = ''failed to parse'' \<rparr> \<rparr> \<rparr>] \<rparr>"

text \<open>Both items rejected, with the same error type and different reasons.\<close>

definition both_items_failed :: bulk_response_body where
  "both_items_failed =
     \<lparr> body_errors = True,
       items = [\<lparr> index = Some \<lparr> result_error =
                    Some \<lparr> os_type = ''mapper_parsing_exception'',
                           os_reason = ''failed to parse field [a]'' \<rparr> \<rparr> \<rparr>,
                \<lparr> index = Some \<lparr> result_error =
                    Some \<lparr> os_type = ''mapper_parsing_exception'',
                           os_reason = ''failed to parse field [b]'' \<rparr> \<rparr> \<rparr>] \<rparr>"

text \<open>The uploader after \<open>log_1\<close> and \<open>log_2\<close> have been written: batch 0 is in flight.\<close>

definition two_written :: BulkInsertTransform where
  "two_written =
     uploader_transform scenario_options scenario_stringify
       (uploader_transform scenario_options scenario_stringify
          (new_BulkInsertTransform scenario_options) log_1 0)
       log_2 0"

section \<open>Properties of the bulk wire format\<close>

lemma hex_digit_not_newline: "n < 16 \<Longrightarrow> hex_digit n \<noteq> newline"
proof -
  assume "n < 16"
  then have "hex_digit n \<in> set ''0123456789abcdef''"
    unfolding hex_digit_def by (intro nth_mem) simp
  then show ?thesis by (auto simp: newline_def)
qed

lemma quote_char_no_newline: "newline \<notin> set (quote_char c)"
proof -
  have "(of_char c :: nat) < 32 \<Longrightarrow> (of_char c :: nat) div 16 < 16" by simp
  moreover have "(of_char c :: nat) mod 16 < 16" by simp
  ultimately show ?thesis
    using hex_digit_not_newline[of "of_char c div 16"] hex_digit_not_newline[of "of_char c mod 16"]
    by (auto simp: quote_char_def newline_def)
qed

lemma stringify_action_no_newline: "newline \<notin> set (stringify_action ix)"
  using quote_char_no_newline
  by (auto simp: stringify_action_def QuoteJSONString_def newline_def)

lemma push_lines_ok:
  "\<forall>d\<in>set bat. JSON_stringify d = Inr (enc d) \<Longrightarrow>
   push_lines JSON_stringify ix lines bat =
     Inr (lines @ concat (map (\<lambda>d. [stringify_action ix, enc d]) bat))"
  by (induction bat arbitrary: lines) simp_all

lemma join_terminated:
  "ls \<noteq> [] \<Longrightarrow> join [newline] ls @ [newline] = concat (map (\<lambda>l. l @ [newline]) ls)"
  by (induction "[newline]" ls rule: join.induct) simp_all

lemma count_newlines_terminated:
  "\<forall>l\<in>set ls. newline \<notin> set l \<Longrightarrow>
   length (filter (\<lambda>c. c = newline) (concat (map (\<lambda>l. l @ [newline]) ls))) = length ls"
proof (induction ls)
  case Nil
  then show ?case by simp
next
  case (Cons l ls)
  then have "filter (\<lambda>c. c = newline) l = []"
    by (auto simp: filter_empty_conv)
  with Cons show ?case by simp
qed

lemma last_terminated:
  "ls \<noteq> [] \<Longrightarrow> last (concat (map (\<lambda>l. l @ [newline]) ls)) = newline"
  by (induction ls) simp_all

lemma pair_lines_nth:
  "\<forall>i<length bat. concat (map (\<lambda>d. [a, enc d]) bat) ! (2 * i) = a
      \<and> concat (map (\<lambda>d. [a, enc d]) bat) ! (2 * i + 1) = enc (bat ! i)"
proof (induction bat)
  case Nil
  then show ?case by simp
next
  case (Cons d bat)
  show ?case
  proof (intro allI impI)
    fix i
    assume "i < length (d # bat)"
    then show "concat (map (\<lambda>d. [a, enc d]) (d # bat)) ! (2 * i) = a
      \<and> concat (map (\<lambda>d. [a, enc d]) (d # bat)) ! (2 * i + 1) = enc ((d # bat) ! i)"
      using Cons by (cases i) simp_all
  qed
qed

lemma quote_char_plain:
  "32 \<le> (of_char c :: nat) \<Longrightarrow> c \<noteq> CHR 0x22 \<Longrightarrow> c \<noteq> CHR 0x5C \<Longrightarrow> quote_char c = [c]"
  by (auto simp: quote_char_def)

lemma quote_plain:
  "\<forall>c\<in>set s. 32 \<le> (of_char c :: nat) \<and> c \<noteq> CHR 0x22 \<and> c \<noteq> CHR 0x5C \<Longrightarrow>
   concat (map quote_char s) = s"
  by (induction s) (simp_all add: quote_char_plain)

text \<open>
  C5. A non-empty batch of \<open>n\<close> records whose documents encode (to text without a raw line
  break, as \<^verbatim>\<open>JSON.stringify\<close> produces) serializes to \<open>2n\<close> lines, each closed by one
  newline: for each record in batch order the action line naming the index, then the
  record's encoded form. The text holds exactly \<open>2n\<close> newline characters, the last one at
  its end. The action line is the text \<^verbatim>\<open>{"index":{"_index":"NAME"}}\<close>, where \<^verbatim>\<open>NAME\<close> is the
  configured index name with its characters escaped as in a JSON string; it is the index
  name itself when the name has no control character, double quote or backslash.
\<close>

theorem serializeNdjsonBatch_wire_format:
  assumes \<open>bat \<noteq> []\<close>
    and \<open>\<forall>d\<in>set bat. JSON_stringify d = Inr (enc d) \<and> newline \<notin> set (enc d)\<close>
  shows \<open>let lines = concat (map (\<lambda>d. [stringify_action ix, enc d]) bat);
             wire = concat (map (\<lambda>l. l @ [newline]) lines)
         in serializeNdjsonBatch JSON_stringify ix bat = Inr wire
            \<and> length lines = 2 * length bat
            \<and> (\<forall>l\<in>set lines. newline \<notin> set l)
            \<and> length (filter (\<lambda>c. c = newline) wire) = 2 * length bat
            \<and> last wire = newline
            \<and> (\<forall>i<length bat. lines ! (2 * i) = stringify_action ix
                                \<and> lines ! (2 * i + 1) = enc (bat ! i))
            \<and> stringify_action ix
                = ''{"index":{"_index":"'' @ concat (map quote_char ix) @ ''"}}''
            \<and> ((\<forall>c\<in>set ix. 32 \<le> (of_char c :: nat) \<and> c \<noteq> CHR 0x22 \<and> c \<noteq> CHR 0x5C) \<longrightarrow>
                  stringify_action ix = ''{"index":{"_index":"'' @ ix @ ''"}}'')\<close>
proof -
  define lines where "lines = concat (map (\<lambda>d. [stringify_action ix, enc d]) bat)"
  define wire where "wire = concat (map (\<lambda>l. l @ [newline]) lines)"
  have len: "length lines = 2 * length bat"
    unfolding lines_def by (induction bat) simp_all
  have ne: "lines \<noteq> []"
    using len assms(1) by auto
  have pl: "push_lines JSON_stringify ix [] bat = Inr lines"
    using push_lines_ok[of bat JSON_stringify enc ix "[]"] assms(2)
    by (simp add: lines_def)
  have ser: "serializeNdjsonBatch JSON_stringify ix bat = Inr wire"
    by (simp add: serializeNdjsonBatch_def pl wire_def join_terminated[OF ne])
  have nonl: "\<forall>l\<in>set lines. newline \<notin> set l"
    using assms(2) stringify_action_no_newline by (auto simp: lines_def)
  have cnt: "length (filter (\<lambda>c. c = newline) wire) = 2 * length bat"
    unfolding wire_def using count_newlines_terminated[OF nonl] len by simp
  have lst: "last wire = newline"
    unfolding wire_def using ne by (rule last_terminated)
  have pos: "\<forall>i<length bat. lines ! (2 * i) = stringify_action ix
      \<and> lines ! (2 * i + 1) = enc (bat ! i)"
    unfolding lines_def by (rule pair_lines_nth)
  have act: \<open>stringify_action ix
      = ''{"index":{"_index":"'' @ concat (map quote_char ix) @ ''"}}''\<close>
    by (simp add: stringify_action_def QuoteJSONString_def)
  have plain: \<open>stringify_action ix = ''{"index":{"_index":"'' @ ix @ ''"}}''\<close>
    if \<open>\<forall>c\<in>set ix. 32 \<le> (of_char c :: nat) \<and> c \<noteq> CHR 0x22 \<and> c \<noteq> CHR 0x5C\<close>
    using quote_plain[OF that] by (simp add: act)
  show ?thesis
    using ser len nonl cnt lst pos act plain
    unfolding lines_def[symmetric] wire_def[symmetric] Let_def
    by blast
qed

text \<open>
  The test "serializes batches as NDJSON": a batch of two to the index
  \<^verbatim>\<open>logs-test\<close> is four lines, the first and the third one the action line.
\<close>

theorem serializeNdjsonBatch_wire_format_witness:
  \<open>serializeNdjsonBatch scenario_stringify ''logs-test'' [log_1, log_2] =
     Inr (concat (map (\<lambda>l. l @ [newline])
       [''{"index":{"_index":"logs-test"}}'', scenario_encode log_1,
        ''{"index":{"_index":"logs-test"}}'', scenario_encode log_2]))\<close>
proof -
  let ?bat = "[log_1, log_2]"
  have h1: "?bat \<noteq> []" by simp
  have "newline \<notin> set (scenario_encode d)" for d
    using quote_char_no_newline
    by (auto simp: scenario_encode_def QuoteJSONString_def newline_def)
  then have h2: "\<forall>d\<in>set ?bat. scenario_stringify d = Inr (scenario_encode d)
              \<and> newline \<notin> set (scenario_encode d)"
    by (simp add: scenario_stringify_def)
  have h3: \<open>\<forall>c\<in>set ''logs-test''. 32 \<le> (of_char c :: nat) \<and> c \<noteq> CHR 0x22 \<and> c \<noteq> CHR 0x5C\<close>
    by simp
  note t = serializeNdjsonBatch_wire_format[OF h1 h2, of "''logs-test''", unfolded Let_def]
  from t have ser: "serializeNdjsonBatch scenario_stringify ''logs-test'' ?bat =
      Inr (concat (map (\<lambda>l. l @ [newline])
        (concat (map (\<lambda>d. [stringify_action ''logs-test'', scenario_encode d]) ?bat))))"
    by (rule conjunct1)
  from t h3 have \<open>stringify_action ''logs-test'' = ''{"index":{"_index":"'' @ ''logs-test'' @ ''"}}''\<close>
    by blast
  then have act: \<open>stringify_action ''logs-test'' = ''{"index":{"_index":"logs-test"}}''\<close>
    by simp
  show ?thesis
    unfolding ser act by simp
qed

section \<open>Properties of the metrics collector\<close>

lemma collect_total_seen: "total_seen (collect c logs) = total_seen c + length logs"
  unfolding collect_def
  by (induction logs arbitrary: c) (simp_all add: collector_transform_def)

lemma collect_responseTime:
  "responseTime (collect c logs) =
     foldl observe_rt (responseTime c) (map (\<lambda>l. response_time_ms (metrics l)) logs)"
  unfolding collect_def
  by (induction logs arbitrary: c) (simp_all add: collector_transform_def)

lemma foldl_observe_rt_values: "rt_values (foldl observe_rt t vs) = rt_values t @ vs"
  by (induction vs arbitrary: t) (simp_all add: observe_rt_def)

lemma foldl_observe_rt_total: "rt_total (foldl observe_rt t vs) = rt_total t + sum_list vs"
  by (induction vs arbitrary: t) (simp_all add: observe_rt_def)

lemma foldl_observe_rt_min: "rt_min (foldl observe_rt t vs) = foldl Math_min (rt_min t) vs"
  by (induction vs arbitrary: t) (simp_all add: observe_rt_def)

lemma foldl_observe_rt_max: "rt_max (foldl observe_rt t vs) = foldl Math_max (rt_max t) vs"
  by (induction vs arbitrary: t) (simp_all add: observe_rt_def)

lemma new_collector_fields:
  "total_seen new_LogMetricsCollector = 0"
  "rt_values (responseTime new_LogMetricsCollector) = []"
  "rt_total (responseTime new_LogMetricsCollector) = 0"
  "rt_min (responseTime new_LogMetricsCollector) = POSITIVE_INFINITY"
  "rt_max (responseTime new_LogMetricsCollector) = NEGATIVE_INFINITY"
  by (simp_all add: new_LogMetricsCollector_def)

text \<open>
  C8. After any list of entries has been written to a new collector, the reported p95 is
  0 when no response time was observed, and otherwise the element at index
  \<open>min (floor (n * 0.95)) (n - 1)\<close> of the observed response times sorted ascending. For
  the observations 200, 600, 400 the snapshot reports average 400, maximum 600 and
  minimum 200.
\<close>

theorem getSnapshot_p95:
  "(let vs = map (\<lambda>l. response_time_ms (metrics l)) logs;
        n = length vs;
        snapshot = getSnapshot (collect new_LogMetricsCollector logs)
    in p95 (snap_responseTime snapshot) =
         (if n = 0 then 0 else sort vs ! min (nat \<lfloor>real n * 0.95\<rfloor>) (n - 1))
       \<and> (vs = [200, 600, 400] \<longrightarrow>
            avg_rt (snap_responseTime snapshot) = 400
          \<and> max_rt (snap_responseTime snapshot) = Finite 600
          \<and> min_rt (snap_responseTime snapshot) = Finite 200))"
proof -
  define vs where "vs = map (\<lambda>l. response_time_ms (metrics l)) logs"
  define c where "c = collect new_LogMetricsCollector logs"
  have rt: "responseTime c = foldl observe_rt (responseTime new_LogMetricsCollector) vs"
    unfolding c_def vs_def by (rule collect_responseTime)
  have vals: "rt_values (responseTime c) = vs"
    by (simp add: rt foldl_observe_rt_values new_collector_fields)
  have seen: "total_seen c = length vs"
    by (simp add: c_def vs_def collect_total_seen new_collector_fields)
  have tot: "rt_total (responseTime c) = sum_list vs"
    by (simp add: rt foldl_observe_rt_total new_collector_fields)
  have mn: "rt_min (responseTime c) = foldl Math_min POSITIVE_INFINITY vs"
    by (simp add: rt foldl_observe_rt_min new_collector_fields)
  have mx: "rt_max (responseTime c) = foldl Math_max NEGATIVE_INFINITY vs"
    by (simp add: rt foldl_observe_rt_max new_collector_fields)
  have p: "p95 (snap_responseTime (getSnapshot c)) =
      (if length vs = 0 then 0
       else sort vs ! min (nat \<lfloor>real (length vs) * 0.95\<rfloor>) (length vs - 1))"
  proof -
    have "sort vs = [] \<longleftrightarrow> vs = []"
      by (metis length_0_conv length_sort)
    then show ?thesis
      by (simp add: getSnapshot_def Let_def vals)
  qed
  have scen: "avg_rt (snap_responseTime (getSnapshot c)) = 400
      \<and> max_rt (snap_responseTime (getSnapshot c)) = Finite 600
      \<and> min_rt (snap_responseTime (getSnapshot c)) = Finite 200"
    if "vs = [200, 600, 400]"
    using that by (simp add: getSnapshot_def Let_def seen tot mn mx toFixed2_def)
  show ?thesis
    using p scen unfolding Let_def vs_def[symmetric] c_def[symmetric] by blast
qed

text \<open>The three entries of the test suite: the p95 of 200, 600, 400 is 600.\<close>

theorem getSnapshot_p95_witness:
  "(let snapshot = getSnapshot (collect new_LogMetricsCollector
       [createLogEntry\<lparr>metrics := \<lparr>cpu_usage = 10, memory_mb = 512, response_time_ms = 200,
                                     db_query_time_ms = 20\<rparr>\<rparr>,
        createLogEntry\<lparr>level := Error,
                       metrics := \<lparr>cpu_usage = 70, memory_mb = 1024, response_time_ms = 600,
                                     db_query_time_ms = 80\<rparr>,
                       error := Some \<lparr>error_type = ''TimeoutException'',
                                      error_message = ''Connection timeout'',
                                      stack_trace = ''stack'', code = ''TO_1001''\<rparr>\<rparr>,
        createLogEntry\<lparr>level := Warn,
                       metrics := \<lparr>cpu_usage = 40, memory_mb = 768, response_time_ms = 400,
                                     db_query_time_ms = 50\<rparr>,
                       service := (service createLogEntry)\<lparr>service_environment := Staging\<rparr>\<rparr>])
    in p95 (snap_responseTime snapshot) = 600
       \<and> avg_rt (snap_responseTime snapshot) = 400
       \<and> max_rt (snap_responseTime snapshot) = Finite 600
       \<and> min_rt (snap_responseTime snapshot) = Finite 200)"
  using getSnapshot_p95 [of
       "[createLogEntry\<lparr>metrics := \<lparr>cpu_usage = 10, memory_mb = 512, response_time_ms = 200,
                                     db_query_time_ms = 20\<rparr>\<rparr>,
        createLogEntry\<lparr>level := Error,
                       metrics := \<lparr>cpu_usage = 70, memory_mb = 1024, response_time_ms = 600,
                                     db_query_time_ms = 80\<rparr>,
                       error := Some \<lparr>error_type = ''TimeoutException'',
                                      error_message = ''Connection timeout'',
                                      stack_trace = ''stack'', code = ''TO_1001''\<rparr>\<rparr>,
        createLogEntry\<lparr>level := Warn,
                       metrics := \<lparr>cpu_usage = 40, memory_mb = 768, response_time_ms = 400,
                                     db_query_time_ms = 50\<rparr>,
                       service := (service createLogEntry)\<lparr>service_environment := Staging\<rparr>\<rparr>]"]
  unfolding Let_def by simp

section \<open>Properties of the record source\<close>

lemma generate_chunk_eq:
  "generate_chunk generatorFn k acc s =
     (acc @ map (\<lambda>i. generatorFn i (baseDate s)) [generated s..<generated s + k],
      s\<lparr> calls := calls s @ [generated s..<generated s + k], generated := generated s + k \<rparr>)"
proof (induction k arbitrary: acc s)
  case 0
  then show ?case by simp
next
  case (Suc k)
  have "[generated s..<generated s + Suc k] = generated s # [Suc (generated s)..<Suc (generated s) + k]"
    by (simp add: upt_rec)
  then show ?case
    by (simp add: Suc Let_def)
qed

lemma source_read_more:
  assumes "generated s < total_logs s"
  shows "source_read generatorFn s =
     (let k = min DEFAULT_CHUNK_SIZE (total_logs s - generated s)
      in s\<lparr> calls := calls s @ [generated s..<generated s + k],
            generated := generated s + k,
            chunks := chunks s @ [map (\<lambda>i. generatorFn i (baseDate s)) [generated s..<generated s + k]] \<rparr>)"
  using assms by (simp add: source_read_def generate_chunk_eq Let_def)

lemma read_all_from:
  "\<not> ended s \<Longrightarrow>
   ended (read_all generatorFn s)
   \<and> calls (read_all generatorFn s) = calls s @ [generated s..<total_logs s]
   \<and> concat (chunks (read_all generatorFn s)) =
       concat (chunks s) @ map (\<lambda>i. generatorFn i (baseDate s)) [generated s..<total_logs s]
   \<and> ((\<forall>c\<in>set (chunks s). length c \<le> DEFAULT_CHUNK_SIZE) \<longrightarrow>
       (\<forall>c\<in>set (chunks (read_all generatorFn s)). length c \<le> DEFAULT_CHUNK_SIZE))"
proof (induction generatorFn s rule: read_all.induct)
  case (1 generatorFn s)
  show ?case
  proof (cases "generated s < total_logs s")
    case False
    then have sr: "source_read generatorFn s = s\<lparr>ended := True\<rparr>"
      by (simp add: source_read_def)
    have "read_all generatorFn s = read_all generatorFn (s\<lparr>ended := True\<rparr>)"
      using "1.prems" sr by (subst read_all.simps) simp
    also have "\<dots> = s\<lparr>ended := True\<rparr>"
      by (subst read_all.simps) simp
    finally show ?thesis
      using False by simp
  next
    case True
    define k where "k = min DEFAULT_CHUNK_SIZE (total_logs s - generated s)"
    define s1 where "s1 = source_read generatorFn s"
    have s1: "s1 = s\<lparr> calls := calls s @ [generated s..<generated s + k],
            generated := generated s + k,
            chunks := chunks s @ [map (\<lambda>i. generatorFn i (baseDate s)) [generated s..<generated s + k]] \<rparr>"
      unfolding s1_def k_def using source_read_more[OF True, of generatorFn] by (simp add: Let_def)
    have open1: "\<not> ended s1" using "1.prems" by (simp add: s1)
    have kle: "generated s + k \<le> total_logs s" "k \<le> DEFAULT_CHUNK_SIZE"
      using True by (simp_all add: k_def)
    have split: "[generated s..<total_logs s] = [generated s..<generated s + k] @ [generated s + k..<total_logs s]"
      using kle(1) upt_add_eq_append[of "generated s" "generated s + k" "total_logs s - (generated s + k)"]
      by simp
    have ra: "read_all generatorFn s = read_all generatorFn s1"
      using "1.prems" by (subst read_all.simps) (simp add: s1_def)
    from "1.IH"[OF "1.prems", folded s1_def, OF open1]
    have ih: "ended (read_all generatorFn s1)"
      "calls (read_all generatorFn s1) = calls s1 @ [generated s1..<total_logs s1]"
      "concat (chunks (read_all generatorFn s1)) =
         concat (chunks s1) @ map (\<lambda>i. generatorFn i (baseDate s1)) [generated s1..<total_logs s1]"
      "(\<forall>c\<in>set (chunks s1). length c \<le> DEFAULT_CHUNK_SIZE) \<longrightarrow>
       (\<forall>c\<in>set (chunks (read_all generatorFn s1)). length c \<le> DEFAULT_CHUNK_SIZE)"
      by blast+
    have c1: "calls (read_all generatorFn s) = calls s @ [generated s..<total_logs s]"
      by (simp add: ra ih(2)) (simp add: s1 split)
    have c2: "concat (chunks (read_all generatorFn s)) =
       concat (chunks s) @ map (\<lambda>i. generatorFn i (baseDate s)) [generated s..<total_logs s]"
      by (simp add: ra ih(3)) (simp add: s1 split)
    have c3: "(\<forall>c\<in>set (chunks s). length c \<le> DEFAULT_CHUNK_SIZE) \<longrightarrow>
       (\<forall>c\<in>set (chunks (read_all generatorFn s)). length c \<le> DEFAULT_CHUNK_SIZE)"
    proof
      assume "\<forall>c\<in>set (chunks s). length c \<le> DEFAULT_CHUNK_SIZE"
      then have "\<forall>c\<in>set (chunks s1). length c \<le> DEFAULT_CHUNK_SIZE"
        using kle(2) by (simp add: s1)
      with ih(4) show "\<forall>c\<in>set (chunks (read_all generatorFn s)). length c \<le> DEFAULT_CHUNK_SIZE"
        by (simp add: ra)
    qed
    show ?thesis using ih(1) c1 c2 c3 by (simp add: ra)
  qed
qed

text \<open>
  C7. For every target count \<open>N\<close> the source, read until it ends, signals the end after
  having acc exactly the \<open>N\<close> records \<open>generatorFn 0\<close>, ..., \<open>generatorFn (N - 1)\<close> in
  this order; the generator function was called with the indices \<open>0\<close>, ..., \<open>N - 1\<close> in
  ascending order, and no scheduling tick acc more than 100 records.
\<close>

theorem read_all_produces:
  "(let s = read_all generatorFn (new_LogGeneratorStream N date)
    in ended s
       \<and> concat (chunks s) = map (\<lambda>i. generatorFn i date) [0..<N]
       \<and> length (concat (chunks s)) = N
       \<and> calls s = [0..<N]
       \<and> (\<forall>c\<in>set (chunks s). length c \<le> 100))"
  using read_all_from[of "new_LogGeneratorStream N date" generatorFn]
  by (simp add: new_LogGeneratorStream_def Let_def DEFAULT_CHUNK_SIZE_def)

theorem read_all_produces_witness:
  "(let s = read_all (\<lambda>i d. createLogEntry\<lparr>entry_id := replicate i CHR ''x''\<rparr>)
              (new_LogGeneratorStream 3 0)
    in ended s
       \<and> map entry_id (concat (chunks s)) = ['''', ''x'', ''xx'']
       \<and> calls s = [0, 1, 2]
       \<and> (\<forall>c\<in>set (chunks s). length c \<le> 100))"
proof -
  have upt3: "[0..<3] = [0, 1, 2]"
    by (simp add: numeral_3_eq_3)
  show ?thesis
    using read_all_produces[of "\<lambda>i d. createLogEntry\<lparr>entry_id := replicate i CHR ''x''\<rparr>" 3 0]
    by (simp add: Let_def upt3 numeral_2_eq_2)
qed

section \<open>Properties of the progress reporter\<close>

lemma tracker_inv_new: "tracker_inv now2 (new_ProgressTracker expected now1 now2)"
  by (simp add: tracker_inv_def new_ProgressTracker_def)

lemma tracker_inv_transform:
  assumes "tracker_inv now2 t"
  shows "tracker_inv now2 (tracker_transform t ev)"
proof (cases ev)
  case (Pair chunk now)
  show ?thesis
  proof (cases "now - lastUpdate t > 2000")
    case False
    with assms Pair show ?thesis by (simp add: tracker_transform_def)
  next
    case True
    from assms have le: "\<forall>a\<in>set (now2 # map fst (printed t)). a \<le> lastUpdate t"
      and sw: "sorted_wrt (\<lambda>a b. b - a > 2000) (now2 # map fst (printed t))"
      unfolding tracker_inv_def list_all_iff by blast+
    from le True have far: "\<forall>a\<in>set (now2 # map fst (printed t)). now - a > 2000"
      by fastforce
    have "sorted_wrt (\<lambda>a b. b - a > 2000) ((now2 # map fst (printed t)) @ [now])"
      using sw far by (simp only: sorted_wrt_append) simp
    moreover have "\<forall>a\<in>set ((now2 # map fst (printed t)) @ [now]). a \<le> now"
      using far by fastforce
    ultimately show ?thesis
      using True Pair by (simp add: tracker_transform_def tracker_inv_def list_all_iff)
  qed
qed

lemma tracker_inv_track:
  "tracker_inv now2 t \<Longrightarrow> tracker_inv now2 (track t evs)"
  unfolding track_def
  by (induction evs arbitrary: t) (simp_all add: tracker_inv_transform)

text \<open>
  C9, as the code has it. After any history of progress events, the next event prints a
  status line exactly when strictly more than 2000 ms have passed since the previous
  status line (since the constructor's clock reading when there is none); whatever the
  arrival times, the printed status lines are pairwise more than 2000 ms apart, the
  first one more than 2000 ms after the start.
\<close>

theorem tracker_throttle:
  "(let t = track (new_ProgressTracker expected now1 now2) evs;
        previous = (if printed t = [] then now2 else fst (last (printed t)));
        t' = tracker_transform t (chunk, now)
    in printed t' = (if now - previous > 2000 then printed t @ [(now, chunk)] else printed t)
       \<and> sorted_wrt (\<lambda>a b. b - a > 2000) (now2 # map fst (printed t')))"
proof -
  define t where "t = track (new_ProgressTracker expected now1 now2) evs"
  have inv: "tracker_inv now2 t"
    unfolding t_def by (intro tracker_inv_track tracker_inv_new)
  then have lu: "lastUpdate t = (if printed t = [] then now2 else fst (last (printed t)))"
    by (simp add: tracker_inv_def)
  have step: "printed (tracker_transform t (chunk, now)) =
      (if now - lastUpdate t > 2000 then printed t @ [(now, chunk)] else printed t)"
    by (simp add: tracker_transform_def)
  have "tracker_inv now2 (tracker_transform t (chunk, now))"
    using inv by (rule tracker_inv_transform)
  then have "sorted_wrt (\<lambda>a b. b - a > 2000)
      (now2 # map fst (printed (tracker_transform t (chunk, now))))"
    by (simp add: tracker_inv_def)
  with step lu show ?thesis
    unfolding Let_def t_def[symmetric] by simp
qed

text \<open>
  Events at 1000, 2001, 4001 and 4002 ms after the start: the second and the fourth print.
\<close>

theorem tracker_throttle_witness:
  "map fst (printed (tracker_transform
      (track (new_ProgressTracker 10 0 0)
         [(\<lparr>inserted = 2, total = 2\<rparr>, 1000), (\<lparr>inserted = 2, total = 4\<rparr>, 2001),
          (\<lparr>inserted = 2, total = 6\<rparr>, 4001)])
      (\<lparr>inserted = 2, total = 8\<rparr>, 4002))) = [2001, 4002]
   \<and> sorted_wrt (\<lambda>a b. b - a > 2000) [0, 2001, 4002 :: int]"
  using tracker_throttle [of 10 0 0
         "[(\<lparr>inserted = 2, total = 2\<rparr>, 1000), (\<lparr>inserted = 2, total = 4\<rparr>, 2001),
          (\<lparr>inserted = 2, total = 6\<rparr>, 4001)]" "\<lparr>inserted = 2, total = 8\<rparr>" 4002]
  by (simp add: Let_def track_def tracker_transform_def new_ProgressTracker_def)

text \<open>
  An event arriving exactly 2000 ms after the start: two seconds have elapsed, and no
  status line is printed.
\<close>

theorem tracker_boundary_counterexample:
  "2000 - lastUpdate (new_ProgressTracker 10 0 0) \<ge> 2000
   \<and> printed (tracker_transform (new_ProgressTracker 10 0 0)
        (\<lparr>inserted = 2, total = 2\<rparr>, 2000)) = []"
  by (simp add: tracker_transform_def new_ProgressTracker_def)

section \<open>Properties of the batch uploader\<close>

lemma destroy_keeps:
  "counters (destroy err st) = counters st"
  "stream_totalInserted (destroy err st) = stream_totalInserted st"
  "pushed (destroy err st) = pushed st"
  "batchIndex (destroy err st) = batchIndex st"
  "inflight (destroy err st) = inflight st"
  "callbacks (destroy err st) = callbacks st"
  "phase (destroy err st) = Closed"
  "buffer (destroy err st) = []"
  "pendingFlushes (destroy err st) = []"
  "flushError (destroy err st) = (case err of Some e \<Rightarrow> Some e | None \<Rightarrow> flushError st)"
  "requests (destroy err st) = requests st"
  "handled (destroy err st) = handled st"
  by (simp_all add: destroy_def Let_def split: option.splits)

lemma callback_keeps:
  "counters (callback err st) = counters st"
  "stream_totalInserted (callback err st) = stream_totalInserted st"
  "pushed (callback err st) = pushed st"
  "batchIndex (callback err st) = batchIndex st"
  "inflight (callback err st) = inflight st"
  "callbacks (callback err st) = callbacks st @ [err]"
  "phase (callback err st) = (if err = None then Accepting else Closed)"
  "flushError (callback err st) = (case err of Some e \<Rightarrow> Some e | None \<Rightarrow> flushError st)"
  "buffer (callback err st) = (if err = None then buffer st else [])"
  "requests (callback err st) = requests st"
  "handled (callback err st) = handled st"
proof -
  have none: "callback None st = st\<lparr> callbacks := callbacks st @ [None], phase := Accepting \<rparr>"
    by (simp add: callback_def)
  have some: "callback (Some e) st = destroy (Some e) (st\<lparr> callbacks := callbacks st @ [Some e] \<rparr>)"
    for e by (simp add: callback_def)
  show "counters (callback err st) = counters st"
    "stream_totalInserted (callback err st) = stream_totalInserted st"
    "pushed (callback err st) = pushed st"
    "batchIndex (callback err st) = batchIndex st"
    "inflight (callback err st) = inflight st"
    "callbacks (callback err st) = callbacks st @ [err]"
    "phase (callback err st) = (if err = None then Accepting else Closed)"
    "flushError (callback err st) = (case err of Some e \<Rightarrow> Some e | None \<Rightarrow> flushError st)"
    "buffer (callback err st) = (if err = None then buffer st else [])"
    "requests (callback err st) = requests st"
    "handled (callback err st) = handled st"
    by (cases err; simp add: none some destroy_keeps)+
qed

lemma flush_callback_keeps:
  "counters (flush_callback err st) = counters st"
  "stream_totalInserted (flush_callback err st) = stream_totalInserted st"
  "pushed (flush_callback err st) = pushed st"
  "batchIndex (flush_callback err st) = batchIndex st"
  "inflight (flush_callback err st) = inflight st"
  "callbacks (flush_callback err st) = callbacks st @ [err]"
  "phase (flush_callback err st) = Closed"
  "flushError (flush_callback err st) = (case err of Some e \<Rightarrow> Some e | None \<Rightarrow> flushError st)"
  "buffer (flush_callback err st) = []"
  "requests (flush_callback err st) = requests st"
  "handled (flush_callback err st) = handled st"
  by (simp_all add: flush_callback_def destroy_keeps split: option.splits)

lemma sendBatch_resolved_counts:
  "counters (sendBatch_resolved st task response now) =
     (let errs = (if body_errors response
                  then filter (\<lambda>item. item_error item \<noteq> None) (items response) else [])
      in (counters st)
           \<lparr> batches := batches (counters st) + 1,
             totalInserted := totalInserted (counters st)
                + (int (length (batch task)) - int (length errs)),
             totalDurationMs := totalDurationMs (counters st) + (now - start task),
             maxBatchDurationMs := max (maxBatchDurationMs (counters st)) (now - start task),
             failedDocuments := failedDocuments (counters st) + length errs \<rparr>)"
  "stream_totalInserted (sendBatch_resolved st task response now) =
     stream_totalInserted st +
       (int (length (batch task))
        - int (length (if body_errors response
                       then filter (\<lambda>item. item_error item \<noteq> None) (items response) else [])))"
  by (simp_all add: sendBatch_resolved_def Let_def)

lemma settle_resolved_fields:
  assumes "find (\<lambda>t. currentBatchIndex t = k) (inflight st) = Some task"
    and "uploader_settle st k (Inr response) now = Some st'"
  shows "counters st' = counters (sendBatch_resolved st task response now)"
    and "stream_totalInserted st' = stream_totalInserted (sendBatch_resolved st task response now)"
proof -
  let ?st1 = "st\<lparr> inflight := filter (\<lambda>t. currentBatchIndex t \<noteq> k) (inflight st) \<rparr>"
  have st': "st' = resume_resolved (promise_resolved ?st1 task response now)"
    using assms by (simp add: uploader_settle_def)
  have keep: "counters (resume_resolved s) = counters s"
    "stream_totalInserted (resume_resolved s) = stream_totalInserted s" for s
    by (cases "phase s"; simp add: resume_resolved_def callback_keeps flush_callback_keeps)+
  show "counters st' = counters (sendBatch_resolved st task response now)"
    and "stream_totalInserted st' = stream_totalInserted (sendBatch_resolved st task response now)"
    by (simp_all add: st' keep promise_resolved_def sendBatch_resolved_def Let_def)
qed

text \<open>
  C1, as the code has it. When the bulk request of a batch resolves, the records credited
  as inserted (\<open>successfulDocuments\<close>, the batch length minus the length of \<^verbatim>\<open>errors\<close>) are
  added to both \<^verbatim>\<open>totalInserted\<close> counters, the length of \<^verbatim>\<open>errors\<close> is added to
  \<^verbatim>\<open>failedDocuments\<close>, and the two additions sum to the size of the batch. With one response
  item per record the credited number is not negative. \<^verbatim>\<open>errors\<close> holds the response items
  that carry an error only when the \<^verbatim>\<open>errors\<close> flag of the response is set; when the flag is
  not set it is empty, whatever the items carry: the whole batch is credited and nothing
  is counted as failed.
\<close>

theorem settled_batch_accounting:
  assumes "find (\<lambda>t. currentBatchIndex t = k) (inflight st) = Some task"
    and "uploader_settle st k (Inr response) now = Some st'"
  shows "(let errs = (if body_errors response
                      then filter (\<lambda>item. item_error item \<noteq> None) (items response) else []);
              successfulDocuments = int (length (batch task)) - int (length errs)
          in totalInserted (counters st') = totalInserted (counters st) + successfulDocuments
             \<and> stream_totalInserted st' = stream_totalInserted st + successfulDocuments
             \<and> failedDocuments (counters st') = failedDocuments (counters st) + length errs
             \<and> batches (counters st') = batches (counters st) + 1
             \<and> (totalInserted (counters st') - totalInserted (counters st))
                 + (int (failedDocuments (counters st')) - int (failedDocuments (counters st)))
                 = int (length (batch task))
             \<and> (length (items response) = length (batch task) \<longrightarrow> 0 \<le> successfulDocuments)
             \<and> (body_errors response \<longrightarrow>
                  length errs
                    = length (filter (\<lambda>item. item_error item \<noteq> None) (items response)))
             \<and> (\<not> body_errors response \<longrightarrow>
                  successfulDocuments = int (length (batch task))
                  \<and> failedDocuments (counters st') = failedDocuments (counters st)))"
proof -
  define errs where "errs = (if body_errors response
      then filter (\<lambda>item. item_error item \<noteq> None) (items response) else [])"
  have le: "length errs \<le> length (items response)"
    by (simp add: errs_def)
  have c: "counters st' = (counters st)
           \<lparr> batches := batches (counters st) + 1,
             totalInserted := totalInserted (counters st)
                + (int (length (batch task)) - int (length errs)),
             totalDurationMs := totalDurationMs (counters st) + (now - start task),
             maxBatchDurationMs := max (maxBatchDurationMs (counters st)) (now - start task),
             failedDocuments := failedDocuments (counters st) + length errs \<rparr>"
    using settle_resolved_fields(1)[OF assms]
    by (simp add: sendBatch_resolved_counts(1) Let_def errs_def)
  have t: "stream_totalInserted st' =
      stream_totalInserted st + (int (length (batch task)) - int (length errs))"
    using settle_resolved_fields(2)[OF assms]
    by (simp add: sendBatch_resolved_counts(2) errs_def)
  have "totalInserted (counters st') = totalInserted (counters st)
          + (int (length (batch task)) - int (length errs))
      \<and> stream_totalInserted st' = stream_totalInserted st
          + (int (length (batch task)) - int (length errs))
      \<and> failedDocuments (counters st') = failedDocuments (counters st) + length errs
      \<and> batches (counters st') = batches (counters st) + 1
      \<and> (totalInserted (counters st') - totalInserted (counters st))
          + (int (failedDocuments (counters st')) - int (failedDocuments (counters st)))
          = int (length (batch task))
      \<and> (length (items response) = length (batch task)
           \<longrightarrow> 0 \<le> int (length (batch task)) - int (length errs))
      \<and> (body_errors response \<longrightarrow>
           length errs = length (filter (\<lambda>item. item_error item \<noteq> None) (items response)))
      \<and> (\<not> body_errors response \<longrightarrow>
           int (length (batch task)) - int (length errs) = int (length (batch task))
           \<and> failedDocuments (counters st') = failedDocuments (counters st))"
    using le by (simp add: c t errs_def)
  then show ?thesis
    unfolding Let_def errs_def .
qed

subsection \<open>Evaluating the concrete run\<close>

lemma serialize_scenario:
  "serializeNdjsonBatch scenario_stringify ix bat =
     Inr (join [newline] (concat (map (\<lambda>d. [stringify_action ix, scenario_encode d]) bat))
          @ [newline])"
proof -
  have "push_lines scenario_stringify ix acc bat =
      Inr (acc @ concat (map (\<lambda>d. [stringify_action ix, scenario_encode d]) bat))" for acc
    by (induction bat arbitrary: acc) (simp_all add: scenario_stringify_def)
  then show ?thesis
    by (simp add: serializeNdjsonBatch_def)
qed

lemmas uploader_unfold =
  uploader_transform_def uploader_flush_def uploader_settle_def scheduleFlush_def
  promise_resolved_def promise_rejected_def resume_resolved_def resume_rejected_def
  sendBatch_request_def sendBatch_resolved_def sendBatch_rejected_def
  callback_def flush_callback_def destroy_def concurrency_def
  logConnectionError_def logStreamError_def logInsertionError_def log_failed_item_def
  log_entry_def flush_def maxErrorsInMemory_def item_error_def
  serialize_scenario scenario_options_def new_BulkInsertTransform_def Let_def

lemma two_written_eq:
  "two_written =
     \<lparr> buffer = [], stream_totalInserted = 0, pendingFlushes = [0], flushError = None,
       batchIndex = 1,
       counters = \<lparr> batches = 0, totalInserted = 0, failedDocuments = 0, totalDurationMs = 0,
                    averageBatchDurationMs = 0, maxBatchDurationMs = 0 \<rparr>,
       errorLogger = Some \<lparr> errors = [], logFile = [], writable = True \<rparr>,
       inflight = [\<lparr> currentBatchIndex = 0, batch = [log_1, log_2],
                     body = join [newline]
                       [stringify_action ''logs-test'', scenario_encode log_1,
                        stringify_action ''logs-test'', scenario_encode log_2] @ [newline],
                     start = 0 \<rparr>],
       requests = [\<lparr> currentBatchIndex = 0, batch = [log_1, log_2],
                     body = join [newline]
                       [stringify_action ''logs-test'', scenario_encode log_1,
                        stringify_action ''logs-test'', scenario_encode log_2] @ [newline],
                     start = 0 \<rparr>],
       handled = [], pushed = [], callbacks = [None, None], phase = Accepting \<rparr>"
  by (simp add: two_written_def uploader_unfold)

lemma logs_distinct: "log_1 \<noteq> log_2" "log_1 \<noteq> log_3" "log_2 \<noteq> log_3"
proof -
  have "entry_id log_1 \<noteq> entry_id log_2" "entry_id log_1 \<noteq> entry_id log_3"
    "entry_id log_2 \<noteq> entry_id log_3"
    by (simp_all add: log_1_def log_2_def log_3_def)
  then show "log_1 \<noteq> log_2" "log_1 \<noteq> log_3" "log_2 \<noteq> log_3"
    by auto
qed

text \<open>
  The test "tracks failed documents": of a batch of two the second item is rejected; one
  record is credited, one counted as failed.
\<close>

theorem settled_batch_accounting_witness:
  "\<exists>st'. uploader_settle two_written 0 (Inr second_item_failed) 7 = Some st'
     \<and> totalInserted (counters st') = 1
     \<and> stream_totalInserted st' = 1
     \<and> failedDocuments (counters st') = 1
     \<and> batches (counters st') = 1"
proof -
  obtain st' where s: "uploader_settle two_written 0 (Inr second_item_failed) 7 = Some st'"
    by (simp add: two_written_eq uploader_settle_def Let_def)
  have f: "find (\<lambda>t. currentBatchIndex t = 0) (inflight two_written) =
      Some (hd (inflight two_written))"
    by (simp add: two_written_eq)
  show ?thesis
    using settled_batch_accounting[OF f s] s
    by (simp add: Let_def two_written_eq second_item_failed_def item_error_def)
qed

text \<open>
  C1 as worded fails when the flag is not set: the response of a batch of two has one
  item per record and its second item carries an error, but its \<^verbatim>\<open>errors\<close> flag is not
  set. Both records are credited as inserted and none is counted as failed.
\<close>

theorem settled_batch_accounting_counterexample:
  "map batch (inflight two_written) = [[log_1, log_2]]
   \<and> length (items item_failed_flag_unset) = 2
   \<and> map item_error (items item_failed_flag_unset)
       = [None, Some \<lparr> os_type = ''mapper_parsing_exception'',
                        os_reason = ''failed to parse'' \<rparr>]
   \<and> map_option stream_totalInserted
       (uploader_settle two_written 0 (Inr item_failed_flag_unset) 7) = Some 2
   \<and> map_option (totalInserted \<circ> counters)
       (uploader_settle two_written 0 (Inr item_failed_flag_unset) 7) = Some 2
   \<and> map_option (failedDocuments \<circ> counters)
       (uploader_settle two_written 0 (Inr item_failed_flag_unset) 7) = Some 0"
  by (simp add: two_written_eq uploader_unfold item_failed_flag_unset_def)

text \<open>
  C6. There are a batch and a bulk response with one result item per record, both items
  rejected with the same error type, for which the entry logged for the second failure
  (it carries the second item's error) names the first record of the batch, not the
  second one, which the second item belongs to.
\<close>

theorem attribution_is_positionally_approximate:
  "\<exists>st task response now.
      body_errors response
    \<and> length (items response) = length (batch task)
    \<and> item_error (items response ! 0) \<noteq> None
    \<and> item_error (items response ! 1) \<noteq> None
    \<and> map_option os_type (item_error (items response ! 0))
        = map_option os_type (item_error (items response ! 1))
    \<and> batch task ! 0 \<noteq> batch task ! 1
    \<and> (\<exists>lg. errorLogger (sendBatch_resolved st task response now) = Some lg
          \<and> map (\<lambda>entry. (opensearchError (details entry), document (details entry))) (logged lg)
              = [(item_error (items response ! 0), Some (batch task ! 0)),
                 (item_error (items response ! 1), Some (batch task ! 0))])"
proof -
  let ?task = "hd (inflight two_written)"
  have a: "body_errors both_items_failed
    \<and> length (items both_items_failed) = length (batch ?task)
    \<and> item_error (items both_items_failed ! 0) \<noteq> None
    \<and> item_error (items both_items_failed ! 1) \<noteq> None
    \<and> map_option os_type (item_error (items both_items_failed ! 0))
        = map_option os_type (item_error (items both_items_failed ! 1))
    \<and> batch ?task ! 0 \<noteq> batch ?task ! 1"
    by (simp add: both_items_failed_def two_written_eq item_error_def logs_distinct)
  have b: "\<exists>lg. errorLogger (sendBatch_resolved two_written ?task both_items_failed 7) = Some lg
      \<and> map (\<lambda>entry. (opensearchError (details entry), document (details entry))) (logged lg)
          = [(item_error (items both_items_failed ! 0), Some (batch ?task ! 0)),
             (item_error (items both_items_failed ! 1), Some (batch ?task ! 0))]"
    by (simp add: both_items_failed_def two_written_eq uploader_unfold logged_def)
  show ?thesis
    by (rule exI[of _ two_written], rule exI[of _ ?task], rule exI[of _ both_items_failed],
        rule exI[of _ 7]) (use a b in blast)
qed



subsection \<open>What each method changes\<close>

lemma sendBatch_request_keeps:
  "batchIndex (snd (sendBatch_request options enc now st bat)) = batchIndex st + 1"
  "buffer (snd (sendBatch_request options enc now st bat)) = buffer st"
  "flushError (snd (sendBatch_request options enc now st bat)) = flushError st"
  "phase (snd (sendBatch_request options enc now st bat)) = phase st"
  "callbacks (snd (sendBatch_request options enc now st bat)) = callbacks st"
  "pendingFlushes (snd (sendBatch_request options enc now st bat)) = pendingFlushes st"
  "counters (snd (sendBatch_request options enc now st bat)) = counters st"
  "stream_totalInserted (snd (sendBatch_request options enc now st bat)) = stream_totalInserted st"
  "pushed (snd (sendBatch_request options enc now st bat)) = pushed st"
  by (simp_all add: sendBatch_request_def Let_def split: sum.splits)


lemma scheduleFlush_keeps:
  "batchIndex (snd (scheduleFlush options enc now st bat)) =
     batchIndex st + (if bat = [] then 0 else 1)"
  "buffer (snd (scheduleFlush options enc now st bat)) = buffer st"
  "phase (snd (scheduleFlush options enc now st bat)) = phase st"
  "callbacks (snd (scheduleFlush options enc now st bat)) = callbacks st"
  "counters (snd (scheduleFlush options enc now st bat)) = counters st"
  "stream_totalInserted (snd (scheduleFlush options enc now st bat)) = stream_totalInserted st"
  "pushed (snd (scheduleFlush options enc now st bat)) = pushed st"
  "flushError (snd (scheduleFlush options enc now st bat)) =
     (case fst (scheduleFlush options enc now st bat) of
        Some err \<Rightarrow> Some err | None \<Rightarrow> flushError st)"
proof -
  obtain r st1 where r: "sendBatch_request options enc now st bat = (r, st1)"
    by (cases "sendBatch_request options enc now st bat")
  have k: "batchIndex st1 = batchIndex st + 1" "buffer st1 = buffer st"
    "flushError st1 = flushError st" "phase st1 = phase st" "callbacks st1 = callbacks st"
    "pendingFlushes st1 = pendingFlushes st" "counters st1 = counters st"
    "stream_totalInserted st1 = stream_totalInserted st" "pushed st1 = pushed st"
    using sendBatch_request_keeps[of options enc now st bat] by (simp_all add: r)
  show "batchIndex (snd (scheduleFlush options enc now st bat)) =
      batchIndex st + (if bat = [] then 0 else 1)"
    "buffer (snd (scheduleFlush options enc now st bat)) = buffer st"
    "phase (snd (scheduleFlush options enc now st bat)) = phase st"
    "callbacks (snd (scheduleFlush options enc now st bat)) = callbacks st"
    "counters (snd (scheduleFlush options enc now st bat)) = counters st"
    "stream_totalInserted (snd (scheduleFlush options enc now st bat)) = stream_totalInserted st"
    "pushed (snd (scheduleFlush options enc now st bat)) = pushed st"
    "flushError (snd (scheduleFlush options enc now st bat)) =
       (case fst (scheduleFlush options enc now st bat) of
          Some err \<Rightarrow> Some err | None \<Rightarrow> flushError st)"
    by (cases r; simp add: scheduleFlush_def r k)+
qed



lemma sendBatch_resolved_keeps:
  "batchIndex (sendBatch_resolved st task response now) = batchIndex st"
  "buffer (sendBatch_resolved st task response now) = buffer st"
  "flushError (sendBatch_resolved st task response now) = flushError st"
  "phase (sendBatch_resolved st task response now) = phase st"
  "callbacks (sendBatch_resolved st task response now) = callbacks st"
  "pendingFlushes (sendBatch_resolved st task response now) = pendingFlushes st"
  "inflight (sendBatch_resolved st task response now) = inflight st"
  "requests (sendBatch_resolved st task response now) = requests st"
  "handled (sendBatch_resolved st task response now) = handled st"
  by (simp_all add: sendBatch_resolved_def Let_def)

lemma sendBatch_rejected_keeps:
  "batchIndex (sendBatch_rejected st task err) = batchIndex st"
  "buffer (sendBatch_rejected st task err) = buffer st"
  "flushError (sendBatch_rejected st task err) = flushError st"
  "phase (sendBatch_rejected st task err) = phase st"
  "callbacks (sendBatch_rejected st task err) = callbacks st"
  "pendingFlushes (sendBatch_rejected st task err) = pendingFlushes st"
  "inflight (sendBatch_rejected st task err) = inflight st"
  "counters (sendBatch_rejected st task err) = counters st"
  "stream_totalInserted (sendBatch_rejected st task err) = stream_totalInserted st"
  "pushed (sendBatch_rejected st task err) = pushed st"
  "requests (sendBatch_rejected st task err) = requests st"
  "handled (sendBatch_rejected st task err) = handled st"
  by (simp_all add: sendBatch_rejected_def)

lemma promise_resolved_keeps:
  "batchIndex (promise_resolved st task response now) = batchIndex st"
  "buffer (promise_resolved st task response now) = buffer st"
  "flushError (promise_resolved st task response now) = flushError st"
  "phase (promise_resolved st task response now) = phase st"
  "callbacks (promise_resolved st task response now) = callbacks st"
  "requests (promise_resolved st task response now) = requests st"
  "handled (promise_resolved st task response now) = handled st"
  "pendingFlushes (promise_resolved st task response now) =
     removeAll (currentBatchIndex task) (pendingFlushes st)"
  by (simp_all add: promise_resolved_def Let_def sendBatch_resolved_keeps)

lemma promise_rejected_keeps:
  "batchIndex (promise_rejected st task err) = batchIndex st"
  "buffer (promise_rejected st task err) = buffer st"
  "flushError (promise_rejected st task err) = Some err"
  "phase (promise_rejected st task err) = phase st"
  "callbacks (promise_rejected st task err) = callbacks st"
  "counters (promise_rejected st task err) = counters st"
  "stream_totalInserted (promise_rejected st task err) = stream_totalInserted st"
  "pushed (promise_rejected st task err) = pushed st"
  "requests (promise_rejected st task err) = requests st"
  "handled (promise_rejected st task err) = handled st"
  by (simp_all add: promise_rejected_def Let_def sendBatch_rejected_keeps)

lemma resume_resolved_keeps:
  "batchIndex (resume_resolved st) = batchIndex st"
  "counters (resume_resolved st) = counters st"
  "stream_totalInserted (resume_resolved st) = stream_totalInserted st"
  "pushed (resume_resolved st) = pushed st"
  "flushError (resume_resolved st) = flushError st"
  "requests (resume_resolved st) = requests st"
  by (cases "phase st"; cases "flushError st";
      simp add: resume_resolved_def callback_keeps flush_callback_keeps)+

lemma resume_rejected_keeps:
  "batchIndex (resume_rejected err st) = batchIndex st"
  "counters (resume_rejected err st) = counters st"
  "stream_totalInserted (resume_rejected err st) = stream_totalInserted st"
  "pushed (resume_rejected err st) = pushed st"
  "requests (resume_rejected err st) = requests st"
  by (cases "phase st"; simp add: resume_rejected_def callback_keeps flush_callback_keeps)+

text \<open>What \<^verbatim>\<open>scheduleFlush\<close> does with a batch that serializes, and with one that does not.\<close>

lemma scheduleFlush_sends:
  assumes "serializeNdjsonBatch enc (indexName options) bat = Inr b" and "bat \<noteq> []"
  shows "scheduleFlush options enc now st bat =
     (None,
      st\<lparr> batchIndex := batchIndex st + 1,
           inflight := inflight st @
             [\<lparr> currentBatchIndex = batchIndex st, batch = bat, body = b, start = now \<rparr>],
           requests := requests st @
             [\<lparr> currentBatchIndex = batchIndex st, batch = bat, body = b, start = now \<rparr>],
           pendingFlushes := pendingFlushes st @ [batchIndex st] \<rparr>)"
  using assms by (simp add: scheduleFlush_def sendBatch_request_def Let_def)

lemma scheduleFlush_fails:
  assumes "serializeNdjsonBatch enc (indexName options) bat = Inl e'" and "bat \<noteq> []"
  shows "fst (scheduleFlush options enc now st bat) = Some e'"
    and "flushError (snd (scheduleFlush options enc now st bat)) = Some e'"
    and "requests (snd (scheduleFlush options enc now st bat)) = requests st"
    and "pendingFlushes (snd (scheduleFlush options enc now st bat)) = pendingFlushes st"
    and "handled (snd (scheduleFlush options enc now st bat)) = handled st"
  using assms by (simp_all add: scheduleFlush_def sendBatch_request_def Let_def)

subsection \<open>Batch formation\<close>

lemma run_append:
  "run options enc st (evs @ evs') =
     (case run options enc st evs of None \<Rightarrow> None | Some st1 \<Rightarrow> run options enc st1 evs')"
  by (induction evs arbitrary: st) (simp_all split: option.splits)

lemma buffering_new:
  "1 \<le> batchSize options \<Longrightarrow> buffering options 0 (new_BulkInsertTransform options)"
  by (simp add: buffering_def new_BulkInsertTransform_def)

lemma buffering_transform:
  assumes b: "1 \<le> batchSize options"
    and inv: "buffering options n st"
    and ph: "phase st = Accepting"
  shows "buffering options (n + 1) (uploader_transform options enc st chunk now)"
proof -
  from inv ph have l: "length (buffer st) < batchSize options"
    and n: "batchIndex st * batchSize options + length (buffer st) = n"
    by (simp_all add: buffering_def)
  show ?thesis
  proof (cases "length (buffer st) + 1 \<ge> batchSize options")
    case False
    then show ?thesis
      using n ph by (simp add: uploader_transform_def Let_def callback_keeps buffering_def)
  next
    case True
    with l have full: "length (buffer st) + 1 = batchSize options" by simp
    let ?st2 = "st\<lparr> buffer := [] \<rparr>"
    let ?bat = "buffer st @ [chunk]"
    obtain r st3 where sf: "scheduleFlush options enc now ?st2 ?bat = (r, st3)"
      by (cases "scheduleFlush options enc now ?st2 ?bat")
    have k: "batchIndex st3 = batchIndex st + 1" "buffer st3 = []" "phase st3 = Accepting"
      using scheduleFlush_keeps(1,2,3)[of options enc now ?st2 ?bat] ph by (simp_all add: sf)
    have cnt: "batchIndex st3 * batchSize options = n + 1"
      using n full k(1) by (simp add: algebra_simps)
    have st': "uploader_transform options enc st chunk now =
        (case r of
           Some err \<Rightarrow>
             if length (pendingFlushes st3) + 1 < concurrency options
             then (callback (flushError st3) st3)\<lparr> phase := Exited \<rparr>
             else callback (Some err) (st3\<lparr> handled := handled st3 @ pendingFlushes st3 \<rparr>)
         | None \<Rightarrow> if length (pendingFlushes st3) < concurrency options
                    then callback (flushError st3) st3
                    else st3\<lparr> phase := AwaitingSlot,
                              handled := handled st3 @ pendingFlushes st3 \<rparr>)"
      using True by (simp add: uploader_transform_def Let_def sf)
    show ?thesis
    proof (cases r)
      case (Some err)
      then show ?thesis by (simp add: st' buffering_def callback_keeps)
    next
      case None
      show ?thesis
      proof (cases "length (pendingFlushes st3) < concurrency options")
        case False
        with None show ?thesis
          using k cnt b by (simp add: st' buffering_def)
      next
        case True
        with None show ?thesis
          using k cnt b
          by (cases "flushError st3") (simp_all add: st' buffering_def callback_keeps)
      qed
    qed
  qed
qed

lemma resume_resolved_phase:
  "phase (resume_resolved st) = Closed
   \<or> (buffer (resume_resolved st) = buffer st
      \<and> (phase (resume_resolved st) = phase st
         \<or> (phase st = AwaitingSlot \<and> phase (resume_resolved st) = Accepting)))"
  by (cases "phase st"; cases "flushError st";
      simp add: resume_resolved_def callback_keeps flush_callback_keeps)

lemma resume_rejected_phase:
  "phase (resume_rejected err st) = Closed
   \<or> (buffer (resume_rejected err st) = buffer st \<and> phase (resume_rejected err st) = phase st)"
  by (cases "phase st"; simp add: resume_rejected_def callback_keeps flush_callback_keeps)

lemma settle_cases:
  assumes "uploader_settle st k outcome now = Some st'"
  obtains (resolved) task response where
      "find (\<lambda>t. currentBatchIndex t = k) (inflight st) = Some task"
      "outcome = Inr response"
      "st' = resume_resolved (promise_resolved
          (st\<lparr> inflight := filter (\<lambda>t. currentBatchIndex t \<noteq> k) (inflight st) \<rparr>)
          task response now)"
  | (rejected) task err where
      "find (\<lambda>t. currentBatchIndex t = k) (inflight st) = Some task"
      "outcome = Inl err" "k \<in> set (handled st)"
      "st' = resume_rejected err (promise_rejected
          (st\<lparr> inflight := filter (\<lambda>t. currentBatchIndex t \<noteq> k) (inflight st) \<rparr>) task err)"
  | (unhandled) task err where
      "find (\<lambda>t. currentBatchIndex t = k) (inflight st) = Some task"
      "outcome = Inl err" "k \<notin> set (handled st)"
      "st' = (promise_rejected
          (st\<lparr> inflight := filter (\<lambda>t. currentBatchIndex t \<noteq> k) (inflight st) \<rparr>) task err)
          \<lparr> phase := Exited \<rparr>"
proof -
  from assms obtain task where f: "find (\<lambda>t. currentBatchIndex t = k) (inflight st) = Some task"
    by (cases "find (\<lambda>t. currentBatchIndex t = k) (inflight st)") (simp_all add: uploader_settle_def)
  show thesis
  proof (cases outcome)
    case (Inr response)
    with assms f show thesis
      by (intro resolved[of task response]) (simp_all add: uploader_settle_def Let_def)
  next
    case (Inl err)
    show thesis
    proof (cases "k \<in> set (handled st)")
      case True
      with assms f Inl show thesis
        by (intro rejected[of task err]) (simp_all add: uploader_settle_def Let_def)
    next
      case False
      with assms f Inl show thesis
        by (intro unhandled[of task err]) (simp_all add: uploader_settle_def Let_def)
    qed
  qed
qed

lemma settle_phase:
  assumes "uploader_settle st k outcome now = Some st'"
  shows "batchIndex st' = batchIndex st"
    and "requests st' = requests st"
    and "phase st' = Closed \<or> phase st' = Exited
         \<or> (buffer st' = buffer st
            \<and> (phase st' = phase st \<or> (phase st = AwaitingSlot \<and> phase st' = Accepting)))"
proof -
  let ?st1 = "st\<lparr> inflight := filter (\<lambda>t. currentBatchIndex t \<noteq> k) (inflight st) \<rparr>"
  from assms show "batchIndex st' = batchIndex st"
    by (cases rule: settle_cases)
       (simp_all add: resume_resolved_keeps resume_rejected_keeps
          promise_resolved_keeps promise_rejected_keeps)
  from assms show "requests st' = requests st"
    by (cases rule: settle_cases)
       (simp_all add: resume_resolved_keeps resume_rejected_keeps
          promise_resolved_keeps promise_rejected_keeps)
  from assms show "phase st' = Closed \<or> phase st' = Exited
         \<or> (buffer st' = buffer st
            \<and> (phase st' = phase st \<or> (phase st = AwaitingSlot \<and> phase st' = Accepting)))"
  proof (cases rule: settle_cases)
    case (resolved task response)
    then show ?thesis
      using resume_resolved_phase[of "promise_resolved ?st1 task response now"]
      by (auto simp: promise_resolved_keeps)
  next
    case (rejected task err)
    then show ?thesis
      using resume_rejected_phase[of err "promise_rejected ?st1 task err"]
      by (auto simp: promise_rejected_keeps)
  next
    case (unhandled task err)
    then show ?thesis by simp
  qed
qed

lemma buffering_settle:
  assumes "buffering options n st" and "uploader_settle st k outcome now = Some st'"
  shows "buffering options n st'"
  using assms(1) settle_phase[OF assms(2)]
  by (auto simp: buffering_def)

lemma buffering_run:
  assumes "1 \<le> batchSize options"
  shows "buffering options n st \<Longrightarrow> run options enc st evs = Some st'
    \<Longrightarrow> \<forall>ev\<in>set evs. \<not> is_Flush ev
    \<Longrightarrow> buffering options (n + length (filter is_Transform evs)) st'"
proof (induction evs arbitrary: n st)
  case Nil
  then show ?case by simp
next
  case (Cons ev evs)
  from Cons.prems(2) obtain st1 where s1: "step options enc st ev = Some st1"
    and r1: "run options enc st1 evs = Some st'"
    by (auto split: option.splits)
  have "buffering options (n + (if is_Transform ev then 1 else 0)) st1"
  proof (cases ev)
    case (Transform chunk now)
    with s1 have "phase st = Accepting" "st1 = uploader_transform options enc st chunk now"
      by (auto split: if_splits)
    with Transform show ?thesis
      using buffering_transform[OF assms Cons.prems(1)] by simp
  next
    case (Flush now)
    with Cons.prems(3) show ?thesis by simp
  next
    case (Settle k outcome now)
    with s1 have "uploader_settle st k outcome now = Some st1"
      by (simp split: if_splits)
    with Settle show ?thesis
      using buffering_settle[OF Cons.prems(1)] by simp
  qed
  from Cons.IH[OF this r1] Cons.prems(3) show ?case
    by (cases "is_Transform ev") (simp_all add: add.assoc)
qed

lemma ceiling_batches:
  assumes "0 < b" and "r < b" and "q * b + r = (n::nat)"
  shows "\<lceil>real n / real b\<rceil> = int q + (if r = 0 then 0 else 1)"
proof -
  have eq: "real n / real b = real q + real r / real b"
    using assms(1,3) by (simp add: field_simps flip: of_nat_add of_nat_mult)
  show ?thesis
  proof (cases "r = 0")
    case True
    then show ?thesis by (simp add: eq)
  next
    case False
    then have "0 < real r / real b" "real r / real b < 1"
      using assms(1,2) by simp_all
    then have "real_of_int (int q) < real n / real b" "real n / real b \<le> real_of_int (int q) + 1"
      by (simp_all add: eq)
    then have "\<lceil>real n / real b\<rceil> = int q + 1"
      by (intro ceiling_unique) simp_all
    with False show ?thesis by simp
  qed
qed

lemma length_delivered:
  "length (delivered evs) = length (filter is_Transform evs)"
  by (induction evs rule: delivered.induct) simp_all

lemma delivered_append:
  "delivered (evs @ evs') = delivered evs @ delivered evs'"
  by (induction evs rule: delivered.induct) simp_all

lemma delivered_none:
  "filter is_Transform evs = [] \<Longrightarrow> delivered evs = []"
  using length_delivered[of evs] by simp

lemma sent_new:
  "batches_sent options enc [] (new_BulkInsertTransform options)"
  by (simp add: batches_sent_def new_BulkInsertTransform_def)

lemma sent_transform:
  assumes sent: "batches_sent options enc recs st"
    and l: "length (buffer st) < batchSize options"
  shows "phase (uploader_transform options enc st chunk now) = Closed
       \<or> phase (uploader_transform options enc st chunk now) = Exited
       \<or> batches_sent options enc (recs @ [chunk]) (uploader_transform options enc st chunk now)"
proof (cases "length (buffer st) + 1 \<ge> batchSize options")
  case False
  then show ?thesis
    using sent by (auto simp: uploader_transform_def Let_def callback_keeps batches_sent_def)
next
  case True
  with l have full: "length (buffer st) + 1 = batchSize options" by simp
  let ?st2 = "st\<lparr> buffer := [] \<rparr>"
  let ?bat = "buffer st @ [chunk]"
  show ?thesis
  proof (cases "serializeNdjsonBatch enc (indexName options) ?bat")
    case (Inl e')
    obtain r st3 where sf: "scheduleFlush options enc now ?st2 ?bat = (r, st3)"
      by (cases "scheduleFlush options enc now ?st2 ?bat")
    from scheduleFlush_fails(1,2)[OF Inl, of now ?st2] have r: "r = Some e'"
      and fe: "flushError st3 = Some e'"
      by (simp_all add: sf)
    have "uploader_transform options enc st chunk now =
        (if length (pendingFlushes st3) + 1 < concurrency options
         then (callback (flushError st3) st3)\<lparr> phase := Exited \<rparr>
         else callback (Some e') (st3\<lparr> handled := handled st3 @ pendingFlushes st3 \<rparr>))"
      using True by (simp add: uploader_transform_def Let_def sf r)
    then show ?thesis
      by (simp add: callback_keeps)
  next
    case (Inr b)
    let ?task = "\<lparr> currentBatchIndex = batchIndex st, batch = ?bat, body = b, start = now \<rparr>"
    let ?st3 = "?st2\<lparr> batchIndex := batchIndex st + 1,
        inflight := inflight st @ [?task], requests := requests st @ [?task],
        pendingFlushes := pendingFlushes st @ [batchIndex st] \<rparr>"
    have sf: "scheduleFlush options enc now ?st2 ?bat = (None, ?st3)"
      using scheduleFlush_sends[OF Inr, of now ?st2] by simp
    have s3: "batches_sent options enc (recs @ [chunk]) ?st3"
      using sent full Inr by (auto simp: batches_sent_def)
    have st': "uploader_transform options enc st chunk now =
        (if length (pendingFlushes ?st3) < concurrency options
         then callback (flushError ?st3) ?st3
         else ?st3\<lparr> phase := AwaitingSlot, handled := handled ?st3 @ pendingFlushes ?st3 \<rparr>)"
      using True by (simp add: uploader_transform_def Let_def sf)
    show ?thesis
    proof (cases "length (pendingFlushes ?st3) < concurrency options")
      case False
      then have "uploader_transform options enc st chunk now
          = ?st3\<lparr> phase := AwaitingSlot, handled := handled ?st3 @ pendingFlushes ?st3 \<rparr>"
        unfolding st' by simp
      moreover have "batches_sent options enc (recs @ [chunk])
          (?st3\<lparr> phase := AwaitingSlot, handled := handled ?st3 @ pendingFlushes ?st3 \<rparr>)"
        using s3 by (simp add: batches_sent_def)
      ultimately show ?thesis by simp
    next
      case slot: True
      then have eq: "uploader_transform options enc st chunk now = callback (flushError ?st3) ?st3"
        unfolding st' by simp
      show ?thesis
      proof (cases "flushError st")
        case None
        then have "batches_sent options enc (recs @ [chunk]) (callback (flushError ?st3) ?st3)"
          using s3 by (simp add: batches_sent_def callback_keeps)
        with eq show ?thesis by simp
      next
        case (Some e)
        then have "phase (callback (flushError ?st3) ?st3) = Closed"
          by (simp add: callback_keeps)
        with eq show ?thesis by simp
      qed
    qed
  qed
qed

lemma sent_settle:
  assumes "batches_sent options enc recs st" and "uploader_settle st k outcome now = Some st'"
  shows "phase st' = Closed \<or> phase st' = Exited \<or> batches_sent options enc recs st'"
  using assms(1) settle_phase[OF assms(2)]
  by (auto simp: batches_sent_def)

lemma sent_run:
  assumes b: "1 \<le> batchSize options"
  shows "buffering options n st
    \<Longrightarrow> phase st = Closed \<or> phase st = Exited \<or> batches_sent options enc recs st
    \<Longrightarrow> run options enc st evs = Some st'
    \<Longrightarrow> \<forall>ev\<in>set evs. \<not> is_Flush ev
    \<Longrightarrow> phase st' = Closed \<or> phase st' = Exited
        \<or> batches_sent options enc (recs @ delivered evs) st'"
proof (induction evs arbitrary: n st recs)
  case Nil
  then show ?case by simp
next
  case (Cons ev evs)
  from Cons.prems(3) obtain st1 where s1: "step options enc st ev = Some st1"
    and r1: "run options enc st1 evs = Some st'"
    by (auto split: option.splits)
  have b1: "buffering options (n + length (filter is_Transform [ev])) st1"
    using buffering_run[OF b Cons.prems(1), of enc "[ev]" st1] s1 Cons.prems(4) by simp
  have "phase st1 = Closed \<or> phase st1 = Exited
      \<or> batches_sent options enc (recs @ delivered [ev]) st1"
  proof (cases ev)
    case (Transform chunk now)
    with s1 have ph: "phase st = Accepting"
      and st1: "st1 = uploader_transform options enc st chunk now"
      by (auto split: if_splits)
    from ph Cons.prems(1,2) have "length (buffer st) < batchSize options"
      and "batches_sent options enc recs st"
      by (simp_all add: buffering_def)
    from sent_transform[OF this(2,1), of chunk now] show ?thesis
      by (auto simp: st1 Transform)
  next
    case (Flush now)
    with Cons.prems(4) show ?thesis by simp
  next
    case (Settle k outcome now)
    with s1 have ne: "phase st \<noteq> Exited" and s: "uploader_settle st k outcome now = Some st1"
      by (simp_all split: if_splits)
    show ?thesis
    proof (cases "phase st = Closed")
      case True
      with settle_phase(3)[OF s] show ?thesis by auto
    next
      case False
      with ne Cons.prems(2) have "batches_sent options enc recs st" by simp
      from sent_settle[OF this s] show ?thesis by (simp add: Settle)
    qed
  qed
  from Cons.IH[OF b1 this r1] Cons.prems(4) show ?case
    by (cases ev) simp_all
qed

lemma serialize_local:
  assumes "\<forall>doc\<in>set bat. \<exists>s. enc doc = Inr s"
  shows "\<exists>b. serializeNdjsonBatch enc ix bat = Inr b"
proof -
  have "\<forall>doc\<in>set bat. \<exists>s. enc doc = Inr s \<Longrightarrow> \<exists>ls. push_lines enc ix acc bat = Inr ls" for acc
  proof (induction bat arbitrary: acc)
    case Nil
    then show ?case by simp
  next
    case (Cons d bat)
    from Cons.prems obtain s where "enc d = Inr s" by auto
    with Cons show ?case by simp
  qed
  with assms obtain ls where "push_lines enc ix [] bat = Inr ls" by blast
  then show ?thesis by (simp add: serializeNdjsonBatch_def)
qed

lemma flush_batches:
  assumes b: "1 \<le> batchSize options"
    and inv: "buffering options n st"
    and ph: "phase st = Accepting"
  shows "int (batchIndex (uploader_flush options enc st now))
           = \<lceil>real n / real (batchSize options)\<rceil>"
    and "phase (uploader_flush options enc st now) = Draining
         \<or> phase (uploader_flush options enc st now) = Closed"
proof -
  from inv ph have l: "length (buffer st) < batchSize options"
    and n: "batchIndex st * batchSize options + length (buffer st) = n"
    by (simp_all add: buffering_def)
  let ?sf = "if length (buffer st) > 0
             then scheduleFlush options enc now (st\<lparr> buffer := [] \<rparr>) (buffer st)
             else (None, st)"
  obtain r st1 where sf: "?sf = (r, st1)"
    by (cases ?sf)
  have k: "batchIndex st1 = batchIndex st + (if buffer st = [] then 0 else 1)"
    using scheduleFlush_keeps(1)[of options enc now "st\<lparr> buffer := [] \<rparr>" "buffer st"] sf
    by (auto split: if_splits)
  have st': "uploader_flush options enc st now =
      (case r of
         Some err \<Rightarrow> flush_callback (Some err) (st1\<lparr> handled := handled st1 @ pendingFlushes st1 \<rparr>)
       | None \<Rightarrow> if pendingFlushes st1 = [] then flush_callback (flushError st1) st1
                  else st1\<lparr> phase := Draining, handled := handled st1 @ pendingFlushes st1 \<rparr>)"
    unfolding uploader_flush_def sf by simp
  have bi: "batchIndex (uploader_flush options enc st now) = batchIndex st1"
    and ph': "phase (uploader_flush options enc st now) = Draining
         \<or> phase (uploader_flush options enc st now) = Closed"
    by (cases r; cases "pendingFlushes st1 = []"; simp add: st' flush_callback_keeps)+
  show "phase (uploader_flush options enc st now) = Draining
         \<or> phase (uploader_flush options enc st now) = Closed"
    by (rule ph')
  have "\<lceil>real n / real (batchSize options)\<rceil>
      = int (batchIndex st) + (if length (buffer st) = 0 then 0 else 1)"
    using b l n by (intro ceiling_batches) simp_all
  then show "int (batchIndex (uploader_flush options enc st now))
           = \<lceil>real n / real (batchSize options)\<rceil>"
    by (simp add: bi k)
qed

text \<open>The requests after \<^verbatim>\<open>_flush\<close>: the residual buffer, if it serializes, is the last one.\<close>

lemma flush_requests:
  "requests (uploader_flush options enc st now) =
     requests st @
       (case serializeNdjsonBatch enc (indexName options) (buffer st) of
          Inl e \<Rightarrow> []
        | Inr b \<Rightarrow> if buffer st = [] then []
                   else [\<lparr> currentBatchIndex = batchIndex st, batch = buffer st, body = b,
                           start = now \<rparr>])"
proof (cases "buffer st = []")
  case True
  then show ?thesis
    by (simp add: uploader_flush_def flush_callback_keeps split: sum.splits)
next
  case False
  show ?thesis
  proof (cases "serializeNdjsonBatch enc (indexName options) (buffer st)")
    case (Inr b)
    from scheduleFlush_sends[of enc options "buffer st" b now "st\<lparr> buffer := [] \<rparr>"] Inr False
    show ?thesis
      by (simp add: uploader_flush_def flush_callback_keeps)
  next
    case (Inl e)
    let ?sf = "scheduleFlush options enc now (st\<lparr> buffer := [] \<rparr>) (buffer st)"
    obtain r st1 where sf: "?sf = (r, st1)" by (cases ?sf)
    from scheduleFlush_fails(1,3)[of enc options "buffer st" e now "st\<lparr> buffer := [] \<rparr>"] Inl False
    have "r = Some e" "requests st1 = requests st"
      by (simp_all add: sf)
    with Inl False show ?thesis
      by (simp add: uploader_flush_def sf flush_callback_keeps)
  qed
qed

lemma flush_sent:
  assumes sent: "batches_sent options enc recs st"
    and l: "length (buffer st) < batchSize options"
  shows "\<forall>t\<in>set (requests (uploader_flush options enc st now)).
           batch t \<noteq> [] \<and> length (batch t) \<le> batchSize options
         \<and> serializeNdjsonBatch enc (indexName options) (batch t) = Inr (body t)"
    and "\<forall>t\<in>set (butlast (requests (uploader_flush options enc st now))).
           length (batch t) = batchSize options"
    and "take (length (concat (map batch (requests (uploader_flush options enc st now))))) recs
           = concat (map batch (requests (uploader_flush options enc st now)))"
    and "length (requests (uploader_flush options enc st now))
           \<le> batchIndex st + (if buffer st = [] then 0 else 1)"
    and "(\<forall>doc\<in>set recs. \<exists>s. enc doc = Inr s) \<Longrightarrow>
           length (requests (uploader_flush options enc st now))
             = batchIndex st + (if buffer st = [] then 0 else 1)
         \<and> concat (map batch (requests (uploader_flush options enc st now))) = recs"
proof -
  let ?rq = "requests (uploader_flush options enc st now)"
  from sent have len: "length (requests st) = batchIndex st"
    and recs: "concat (map batch (requests st)) @ buffer st = recs"
    and full: "\<forall>t\<in>set (requests st). length (batch t) = batchSize options
         \<and> serializeNdjsonBatch enc (indexName options) (batch t) = Inr (body t)"
    by (simp_all add: batches_sent_def)
  from l have pos: "0 < batchSize options" by simp
  consider (same) "?rq = requests st"
      "buffer st = [] \<or> (\<exists>e. serializeNdjsonBatch enc (indexName options) (buffer st) = Inl e)"
    | (more) b where "buffer st \<noteq> []"
      "serializeNdjsonBatch enc (indexName options) (buffer st) = Inr b"
      "?rq = requests st @ [\<lparr> currentBatchIndex = batchIndex st, batch = buffer st, body = b,
                           start = now \<rparr>]"
    by (cases "serializeNdjsonBatch enc (indexName options) (buffer st)";
        cases "buffer st = []") (simp_all add: flush_requests)
  note cases = this
  show "\<forall>t\<in>set ?rq. batch t \<noteq> [] \<and> length (batch t) \<le> batchSize options
         \<and> serializeNdjsonBatch enc (indexName options) (batch t) = Inr (body t)"
  proof (cases rule: cases)
    case same
    with full pos show ?thesis by auto
  next
    case (more b)
    with full pos l show ?thesis by auto
  qed
  show "\<forall>t\<in>set (butlast ?rq). length (batch t) = batchSize options"
  proof (cases rule: cases)
    case same
    with full show ?thesis by (auto dest: in_set_butlastD)
  next
    case (more b)
    with full show ?thesis by simp
  qed
  show "take (length (concat (map batch ?rq))) recs = concat (map batch ?rq)"
  proof (cases rule: cases)
    case same
    then show ?thesis using recs by auto
  next
    case (more b)
    then show ?thesis using recs by auto
  qed
  show "length ?rq \<le> batchIndex st + (if buffer st = [] then 0 else 1)"
  proof (cases rule: cases)
    case same
    then show ?thesis using len by simp
  next
    case (more b)
    then show ?thesis using len by simp
  qed
  show "length ?rq = batchIndex st + (if buffer st = [] then 0 else 1)
         \<and> concat (map batch ?rq) = recs"
    if tot: "\<forall>doc\<in>set recs. \<exists>s. enc doc = Inr s"
  proof (cases rule: cases)
    case same
    from tot recs have "\<forall>doc\<in>set (buffer st). \<exists>s. enc doc = Inr s" by auto
    from serialize_local[OF this, of "indexName options"] same(2)
    have "buffer st = []" by auto
    with same(1) len recs show ?thesis by simp
  next
    case (more b)
    then show ?thesis using len recs by simp
  qed
qed

lemma drained_run:
  "phase st = Draining \<or> phase st = Closed \<or> phase st = Exited
   \<Longrightarrow> run options enc st evs = Some st'
   \<Longrightarrow> batchIndex st' = batchIndex st \<and> requests st' = requests st \<and> delivered evs = []"
proof (induction evs arbitrary: st)
  case Nil
  then show ?case by simp
next
  case (Cons ev evs)
  from Cons.prems(2) obtain st1 where s1: "step options enc st ev = Some st1"
    and r1: "run options enc st1 evs = Some st'"
    by (auto split: option.splits)
  from s1 Cons.prems(1) obtain k outcome now where ev: "ev = Settle k outcome now"
    by (cases ev) (auto split: if_splits)
  with s1 have s: "uploader_settle st k outcome now = Some st1"
    by (simp split: if_splits)
  from settle_phase[OF s] Cons.prems(1)
  have "batchIndex st1 = batchIndex st" "requests st1 = requests st"
    "phase st1 = Draining \<or> phase st1 = Closed \<or> phase st1 = Exited"
    by auto
  with Cons.IH[OF this(3) r1] ev show ?case by simp
qed

text \<open>
  C2. In every run of the uploader from its construction that reaches the end of the
  input (every event of the run being one the stream can take in its phase), with
  \<^verbatim>\<open>batchSize\<close> at least 1 and \<open>N\<close> chunks delivered to \<^verbatim>\<open>_transform\<close>, the number of batches
  handed to \<^verbatim>\<open>sendBatch\<close> (the batch index counter) is the ceiling of \<open>N / batchSize\<close>,
  however the bulk requests settle in between and afterwards. The bulk requests issued
  carry these batches: no request is empty or larger than \<^verbatim>\<open>batchSize\<close>, every request but
  the last one carries exactly \<^verbatim>\<open>batchSize\<close> records, each request body is the serialization
  of its batch, and the batches, one after the other, are the delivered records in order,
  up to a final partial batch that failed to serialize. When every delivered record
  serializes, each of the ceiling of \<open>N / batchSize\<close> batches is a bulk request and
  together they carry all \<open>N\<close> records.
\<close>

theorem batches_dispatched:
  assumes "1 \<le> batchSize options"
    and "run options enc (new_BulkInsertTransform options) evs = Some st"
    and "\<exists>ev\<in>set evs. is_Flush ev"
  shows "int (batchIndex st)
           = \<lceil>real (length (delivered evs)) / real (batchSize options)\<rceil>
       \<and> (\<forall>t\<in>set (requests st).
             batch t \<noteq> [] \<and> length (batch t) \<le> batchSize options
           \<and> serializeNdjsonBatch enc (indexName options) (batch t) = Inr (body t))
       \<and> (\<forall>t\<in>set (butlast (requests st)). length (batch t) = batchSize options)
       \<and> take (length (concat (map batch (requests st)))) (delivered evs)
           = concat (map batch (requests st))
       \<and> length (requests st) \<le> batchIndex st
       \<and> ((\<forall>doc\<in>set (delivered evs). \<exists>s. enc doc = Inr s) \<longrightarrow>
             int (length (requests st))
               = \<lceil>real (length (delivered evs)) / real (batchSize options)\<rceil>
           \<and> concat (map batch (requests st)) = delivered evs)"
proof -
  from assms(3) obtain pre ev post where evs: "evs = pre @ ev # post"
    and fl: "is_Flush ev" and pre: "\<forall>e\<in>set pre. \<not> is_Flush e"
    using split_list_first_prop[of evs is_Flush] by blast
  from fl obtain now where ev: "ev = Flush now"
    by (cases ev) simp_all
  from assms(2) obtain st1 st2 where r1: "run options enc (new_BulkInsertTransform options) pre = Some st1"
    and s2: "step options enc st1 (Flush now) = Some st2"
    and r3: "run options enc st2 post = Some st"
    unfolding evs ev run_append by (auto split: option.splits)
  have inv: "buffering options (length (delivered pre)) st1"
    using buffering_run[OF assms(1) buffering_new[OF assms(1)] r1 pre]
    by (simp add: length_delivered)
  from s2 have ph: "phase st1 = Accepting" and st2: "st2 = uploader_flush options enc st1 now"
    by (auto split: if_splits)
  from inv ph have l: "length (buffer st1) < batchSize options"
    and n: "batchIndex st1 * batchSize options + length (buffer st1) = length (delivered pre)"
    by (simp_all add: buffering_def)
  have sent: "batches_sent options enc (delivered pre) st1"
    using sent_run[OF assms(1) buffering_new[OF assms(1)] _ r1 pre, of "[]"] ph
    by (simp add: sent_new)
  have bi2: "int (batchIndex st2) = \<lceil>real (length (delivered pre)) / real (batchSize options)\<rceil>"
    and ph2: "phase st2 = Draining \<or> phase st2 = Closed"
    unfolding st2 by (rule flush_batches[OF assms(1) inv ph])+
  have k2: "batchIndex st2 = batchIndex st1 + (if buffer st1 = [] then 0 else 1)"
    using bi2 ceiling_batches[OF _ l n] assms(1) by (cases "buffer st1 = []") simp_all
  from ph2 have "phase st2 = Draining \<or> phase st2 = Closed \<or> phase st2 = Exited" by blast
  from drained_run[OF this r3]
  have same: "batchIndex st = batchIndex st2" "requests st = requests st2" "delivered post = []"
    by simp_all
  have del: "delivered evs = delivered pre"
    by (simp add: evs ev delivered_append same(3))
  show ?thesis
    unfolding del same(1,2)
    using flush_sent[OF sent l, of now] bi2 k2
    by (simp add: st2)
qed

text \<open>
  Two full batches and a final partial one: three records in batches of two make two
  requests.
\<close>

theorem batches_dispatched_witness:
  "\<exists>st. run scenario_options scenario_stringify (new_BulkInsertTransform scenario_options)
          [Transform log_1 0, Transform log_2 0, Transform log_3 1, Flush 2] = Some st
        \<and> batchIndex st = 2 \<and> length (requests st) = 2
        \<and> concat (map batch (requests st)) = [log_1, log_2, log_3]"
proof -
  let ?evs = "[Transform log_1 0, Transform log_2 0, Transform log_3 1, Flush 2]"
  obtain st where r: "run scenario_options scenario_stringify
      (new_BulkInsertTransform scenario_options) ?evs = Some st"
    by (simp add: uploader_unfold)
  have b: "1 \<le> batchSize scenario_options"
    by (simp add: scenario_options_def)
  have f: "\<exists>ev\<in>set ?evs. is_Flush ev"
    by simp
  have n: "\<lceil>real (length (delivered ?evs)) / real (batchSize scenario_options)\<rceil> = 2"
    by (simp add: scenario_options_def)
  have tot: "\<forall>doc\<in>set (delivered ?evs). \<exists>s. scenario_stringify doc = Inr s"
    by (simp add: scenario_stringify_def)
  from batches_dispatched[OF b r f] n tot
  have "int (batchIndex st) = 2" "int (length (requests st)) = 2"
    "concat (map batch (requests st)) = delivered ?evs"
    by simp_all
  with r show ?thesis
    by simp
qed

subsection \<open>A latched failure\<close>

lemma settle_awaiting_latched:
  assumes "phase st = AwaitingSlot" and "flushError st = Some e"
    and "k \<in> set (handled st)"
    and "uploader_settle st k outcome now = Some st'"
  shows "\<exists>e'. callbacks st' = callbacks st @ [Some e'] \<and> phase st' = Closed
            \<and> flushError st' = Some e' \<and> (e' = e \<or> outcome = Inl e')"
  using assms(4)
proof (cases rule: settle_cases)
  case (resolved task response)
  then show ?thesis
    using assms(1,2)
    by (simp add: resume_resolved_def promise_resolved_keeps callback_keeps)
next
  case (rejected task err)
  then show ?thesis
    using assms(1)
    by (simp add: resume_rejected_def promise_rejected_keeps callback_keeps)
next
  case (unhandled task err)
  with assms(3) show ?thesis by simp
qed

lemma transform_latched:
  assumes fe: "flushError st = Some e"
  shows "length (buffer st) + 1 < batchSize options \<Longrightarrow>
           uploader_transform options enc st chunk now =
             st\<lparr> buffer := buffer st @ [chunk], callbacks := callbacks st @ [None],
                  phase := Accepting \<rparr>"
    and "batchSize options \<le> length (buffer st) + 1 \<Longrightarrow>
         serializeNdjsonBatch enc (indexName options) (buffer st @ [chunk]) = Inl e' \<Longrightarrow>
           batchIndex (uploader_transform options enc st chunk now) = batchIndex st + 1
         \<and> requests (uploader_transform options enc st chunk now) = requests st
         \<and> callbacks (uploader_transform options enc st chunk now) = callbacks st @ [Some e']
         \<and> flushError (uploader_transform options enc st chunk now) = Some e'
         \<and> (phase (uploader_transform options enc st chunk now) = Closed
            \<or> phase (uploader_transform options enc st chunk now) = Exited)"
    and "batchSize options \<le> length (buffer st) + 1 \<Longrightarrow>
         serializeNdjsonBatch enc (indexName options) (buffer st @ [chunk]) = Inr b \<Longrightarrow>
           batchIndex (uploader_transform options enc st chunk now) = batchIndex st + 1
         \<and> requests (uploader_transform options enc st chunk now) = requests st @
             [\<lparr> currentBatchIndex = batchIndex st, batch = buffer st @ [chunk], body = b,
                start = now \<rparr>]
         \<and> flushError (uploader_transform options enc st chunk now) = Some e
         \<and> (length (pendingFlushes st) + 1 < concurrency options \<longrightarrow>
               callbacks (uploader_transform options enc st chunk now) = callbacks st @ [Some e]
             \<and> phase (uploader_transform options enc st chunk now) = Closed)
         \<and> (concurrency options \<le> length (pendingFlushes st) + 1 \<longrightarrow>
               callbacks (uploader_transform options enc st chunk now) = callbacks st
             \<and> phase (uploader_transform options enc st chunk now) = AwaitingSlot
             \<and> set (pendingFlushes (uploader_transform options enc st chunk now))
                 \<subseteq> set (handled (uploader_transform options enc st chunk now)))"
proof -
  let ?st2 = "st\<lparr> buffer := [] \<rparr>"
  let ?bat = "buffer st @ [chunk]"
  let ?st' = "uploader_transform options enc st chunk now"
  show "?st' =
      st\<lparr> buffer := buffer st @ [chunk], callbacks := callbacks st @ [None], phase := Accepting \<rparr>"
    if "length (buffer st) + 1 < batchSize options"
    using that by (simp add: uploader_transform_def Let_def callback_def)
  show "batchIndex ?st' = batchIndex st + 1 \<and> requests ?st' = requests st
      \<and> callbacks ?st' = callbacks st @ [Some e'] \<and> flushError ?st' = Some e'
      \<and> (phase ?st' = Closed \<or> phase ?st' = Exited)"
    if full: "batchSize options \<le> length (buffer st) + 1"
      and ser: "serializeNdjsonBatch enc (indexName options) ?bat = Inl e'"
  proof -
    obtain r st3 where sf: "scheduleFlush options enc now ?st2 ?bat = (r, st3)"
      by (cases "scheduleFlush options enc now ?st2 ?bat")
    from scheduleFlush_fails[OF ser, of now ?st2] have r: "r = Some e'"
      and k: "flushError st3 = Some e'" "requests st3 = requests st"
      by (simp_all add: sf)
    have k': "batchIndex st3 = batchIndex st + 1" "callbacks st3 = callbacks st"
      using scheduleFlush_keeps(1,4)[of options enc now ?st2 ?bat] by (simp_all add: sf)
    have "?st' =
        (if length (pendingFlushes st3) + 1 < concurrency options
         then (callback (flushError st3) st3)\<lparr> phase := Exited \<rparr>
         else callback (Some e') (st3\<lparr> handled := handled st3 @ pendingFlushes st3 \<rparr>))"
      using full by (simp add: uploader_transform_def Let_def sf r)
    then show ?thesis
      by (simp add: callback_keeps k k')
  qed
  show "batchIndex ?st' = batchIndex st + 1
      \<and> requests ?st' = requests st @
             [\<lparr> currentBatchIndex = batchIndex st, batch = ?bat, body = b, start = now \<rparr>]
      \<and> flushError ?st' = Some e
      \<and> (length (pendingFlushes st) + 1 < concurrency options \<longrightarrow>
            callbacks ?st' = callbacks st @ [Some e] \<and> phase ?st' = Closed)
      \<and> (concurrency options \<le> length (pendingFlushes st) + 1 \<longrightarrow>
            callbacks ?st' = callbacks st \<and> phase ?st' = AwaitingSlot
          \<and> set (pendingFlushes ?st') \<subseteq> set (handled ?st'))"
    if full: "batchSize options \<le> length (buffer st) + 1"
      and ser: "serializeNdjsonBatch enc (indexName options) ?bat = Inr b"
  proof -
    let ?task = "\<lparr> currentBatchIndex = batchIndex st, batch = ?bat, body = b, start = now \<rparr>"
    let ?st3 = "?st2\<lparr> batchIndex := batchIndex st + 1,
        inflight := inflight st @ [?task], requests := requests st @ [?task],
        pendingFlushes := pendingFlushes st @ [batchIndex st] \<rparr>"
    have sf: "scheduleFlush options enc now ?st2 ?bat = (None, ?st3)"
      using scheduleFlush_sends[OF ser, of now ?st2] by simp
    have st': "?st' =
        (if length (pendingFlushes ?st3) < concurrency options
         then callback (flushError ?st3) ?st3
         else ?st3\<lparr> phase := AwaitingSlot, handled := handled ?st3 @ pendingFlushes ?st3 \<rparr>)"
      using full by (simp add: uploader_transform_def Let_def sf)
    show ?thesis
    proof (cases "length (pendingFlushes st) + 1 < concurrency options")
      case True
      then have "?st' = callback (Some e) ?st3"
        unfolding st' by (simp add: fe)
      with True show ?thesis
        by (simp add: callback_keeps)
    next
      case False
      then have "?st' =
          ?st3\<lparr> phase := AwaitingSlot, handled := handled ?st3 @ pendingFlushes ?st3 \<rparr>"
        unfolding st' by simp
      with False show ?thesis
        by (auto simp: fe)
    qed
  qed
qed

text \<open>
  C4, as the code has it. \<^verbatim>\<open>_transform\<close> does not look at the latched failure before it
  buffers: a record submitted while a failure is latched is appended to the buffer. Below
  \<^verbatim>\<open>batchSize\<close> the callback reports success and the record stays buffered; no request is
  made. When the record completes a batch, the batch is still handed to \<^verbatim>\<open>sendBatch\<close>. If
  the batch does not serialize, the callback reports that error at once. If it does, the
  batch goes out as one more bulk request, and the callback reports the latched error: at
  once exactly when a slot is free (with this request fewer than \<^verbatim>\<open>concurrency\<close> are
  outstanding); otherwise \<^verbatim>\<open>_transform\<close> waits without a callback, and calls back as soon
  as one of the outstanding requests settles, with the latched error if that request
  resolved and with the error it threw otherwise. A destroyed stream, or one whose process
  has ended, takes no further chunk.
\<close>

theorem submit_after_latched_failure:
  assumes "flushError st = Some e"
  shows "(let st' = uploader_transform options enc st chunk now;
              bat = buffer st @ [chunk]
          in (length (buffer st) + 1 < batchSize options \<longrightarrow>
                buffer st' = bat
              \<and> callbacks st' = callbacks st @ [None]
              \<and> batchIndex st' = batchIndex st
              \<and> requests st' = requests st)
           \<and> (batchSize options \<le> length (buffer st) + 1 \<longrightarrow>
                batchIndex st' = batchIndex st + 1
              \<and> (\<forall>e'. serializeNdjsonBatch enc (indexName options) bat = Inl e' \<longrightarrow>
                    callbacks st' = callbacks st @ [Some e']
                  \<and> requests st' = requests st)
              \<and> (\<forall>b. serializeNdjsonBatch enc (indexName options) bat = Inr b \<longrightarrow>
                    requests st' = requests st @
                      [\<lparr> currentBatchIndex = batchIndex st, batch = bat, body = b,
                         start = now \<rparr>]
                  \<and> (length (pendingFlushes st) + 1 < concurrency options \<longrightarrow>
                        callbacks st' = callbacks st @ [Some e] \<and> phase st' = Closed)
                  \<and> (concurrency options \<le> length (pendingFlushes st) + 1 \<longrightarrow>
                        callbacks st' = callbacks st \<and> phase st' = AwaitingSlot
                      \<and> (\<forall>k outcome now' st''.
                            k \<in> set (pendingFlushes st')
                            \<and> uploader_settle st' k outcome now' = Some st'' \<longrightarrow>
                            phase st'' = Closed
                            \<and> callbacks st'' = callbacks st' @
                                [Some (case outcome of Inl thrown \<Rightarrow> thrown
                                       | Inr response \<Rightarrow> e)])))))
         \<and> (phase st = Closed \<or> phase st = Exited \<longrightarrow>
              step options enc st (Transform chunk now) = None)"
proof -
  let ?st' = "uploader_transform options enc st chunk now"
  let ?bat = "buffer st @ [chunk]"
  have below: "buffer ?st' = ?bat \<and> callbacks ?st' = callbacks st @ [None]
      \<and> batchIndex ?st' = batchIndex st \<and> requests ?st' = requests st"
    if "length (buffer st) + 1 < batchSize options"
    using transform_latched(1)[OF assms that, of enc chunk now] by simp
  have bi: "batchIndex ?st' = batchIndex st + 1"
    if full: "batchSize options \<le> length (buffer st) + 1"
    using transform_latched(2,3)[OF assms full, of enc chunk]
    by (cases "serializeNdjsonBatch enc (indexName options) ?bat") simp_all
  have fails: "callbacks ?st' = callbacks st @ [Some e'] \<and> requests ?st' = requests st"
    if "batchSize options \<le> length (buffer st) + 1"
      "serializeNdjsonBatch enc (indexName options) ?bat = Inl e'" for e'
    using transform_latched(2)[OF assms that, of now] by simp
  have sends: "requests ?st' = requests st @
        [\<lparr> currentBatchIndex = batchIndex st, batch = ?bat, body = b, start = now \<rparr>]
      \<and> (length (pendingFlushes st) + 1 < concurrency options \<longrightarrow>
            callbacks ?st' = callbacks st @ [Some e] \<and> phase ?st' = Closed)
      \<and> (concurrency options \<le> length (pendingFlushes st) + 1 \<longrightarrow>
            callbacks ?st' = callbacks st \<and> phase ?st' = AwaitingSlot
          \<and> (\<forall>k outcome now' st''.
                k \<in> set (pendingFlushes ?st')
                \<and> uploader_settle ?st' k outcome now' = Some st'' \<longrightarrow>
                phase st'' = Closed
                \<and> callbacks st'' = callbacks ?st' @
                    [Some (case outcome of Inl thrown \<Rightarrow> thrown | Inr response \<Rightarrow> e)]))"
    if full: "batchSize options \<le> length (buffer st) + 1"
      and ser: "serializeNdjsonBatch enc (indexName options) ?bat = Inr b" for b
  proof -
    note t = transform_latched(3)[OF assms full ser, of now]
    have "phase st'' = Closed
        \<and> callbacks st'' = callbacks ?st' @
            [Some (case outcome of Inl thrown \<Rightarrow> thrown | Inr response \<Rightarrow> e)]"
      if w: "concurrency options \<le> length (pendingFlushes st) + 1"
        and k: "k \<in> set (pendingFlushes ?st')"
        and s: "uploader_settle ?st' k outcome now' = Some st''" for k outcome now' st''
    proof -
      from t w have ph: "phase ?st' = AwaitingSlot" and fe': "flushError ?st' = Some e"
        and h: "k \<in> set (handled ?st')"
        using k by auto
      from s show ?thesis
      proof (cases rule: settle_cases)
        case (resolved task response)
        then show ?thesis
          using ph fe'
          by (simp add: resume_resolved_def promise_resolved_keeps callback_keeps)
      next
        case (rejected task err)
        then show ?thesis
          using ph
          by (simp add: resume_rejected_def promise_rejected_keeps callback_keeps)
      next
        case (unhandled task err)
        with h show ?thesis by simp
      qed
    qed
    with t show ?thesis by blast
  qed
  have closed: "step options enc st (Transform chunk now) = None"
    if "phase st = Closed \<or> phase st = Exited"
    using that by auto
  show ?thesis
    unfolding Let_def using below bi fails sends closed by blast
qed

text \<open>
  With two slots and batches of two: \<^verbatim>\<open>_transform\<close> waits in a race for the requests of
  batch 0 and batch 1 and resumes when batch 0 resolves; then the request of batch 1
  throws, and the race has taken its promise. The failure is latched. The next record,
  \<open>log_5\<close>, is buffered and its callback reports no error.
\<close>

theorem submit_after_latched_failure_witness:
  "\<exists>st. run scenario_options scenario_stringify (new_BulkInsertTransform scenario_options)
          [Transform log_1 0, Transform log_2 0, Transform log_3 1, Transform log_4 1,
           Settle 0 (Inr (items_ok 2)) 5, Settle 1 (Inl connection_refused) 6] = Some st
        \<and> flushError st = Some connection_refused
        \<and> buffer (uploader_transform scenario_options scenario_stringify st log_5 7) = [log_5]
        \<and> callbacks (uploader_transform scenario_options scenario_stringify st log_5 7)
            = [None, None, None, None, None]"
proof -
  obtain st where r: "run scenario_options scenario_stringify
        (new_BulkInsertTransform scenario_options)
        [Transform log_1 0, Transform log_2 0, Transform log_3 1, Transform log_4 1,
         Settle 0 (Inr (items_ok 2)) 5, Settle 1 (Inl connection_refused) 6] = Some st"
    and fe: "flushError st = Some connection_refused"
    and st: "buffer st = []" "callbacks st = [None, None, None, None]"
    by (simp add: uploader_unfold items_ok_def)
  have "length (buffer st) + 1 < batchSize scenario_options"
    by (simp add: st scenario_options_def)
  with submit_after_latched_failure[OF fe, of scenario_options scenario_stringify log_5 7]
  show ?thesis
    using r fe by (simp add: Let_def st)
qed

theorem submit_after_latched_failure_counterexample:
  "map_option handled
     (run scenario_options scenario_stringify (new_BulkInsertTransform scenario_options)
        [Transform log_1 0, Transform log_2 0, Transform log_3 1, Transform log_4 1,
         Settle 0 (Inr (items_ok 2)) 5])
     = Some [0, 1]
   \<and> map_option flushError
     (run scenario_options scenario_stringify (new_BulkInsertTransform scenario_options)
        [Transform log_1 0, Transform log_2 0, Transform log_3 1, Transform log_4 1,
         Settle 0 (Inr (items_ok 2)) 5, Settle 1 (Inl connection_refused) 6])
     = Some (Some connection_refused)
   \<and> map_option phase
     (run scenario_options scenario_stringify (new_BulkInsertTransform scenario_options)
        [Transform log_1 0, Transform log_2 0, Transform log_3 1, Transform log_4 1,
         Settle 0 (Inr (items_ok 2)) 5, Settle 1 (Inl connection_refused) 6])
     = Some Accepting
   \<and> map_option buffer
     (run scenario_options scenario_stringify (new_BulkInsertTransform scenario_options)
        [Transform log_1 0, Transform log_2 0, Transform log_3 1, Transform log_4 1,
         Settle 0 (Inr (items_ok 2)) 5, Settle 1 (Inl connection_refused) 6,
         Transform log_5 7])
     = Some [log_5]
   \<and> map_option callbacks
     (run scenario_options scenario_stringify (new_BulkInsertTransform scenario_options)
        [Transform log_1 0, Transform log_2 0, Transform log_3 1, Transform log_4 1,
         Settle 0 (Inr (items_ok 2)) 5, Settle 1 (Inl connection_refused) 6,
         Transform log_5 7])
     = Some [None, None, None, None, None]
   \<and> map_option phase
     (run scenario_options scenario_stringify (new_BulkInsertTransform scenario_options)
        [Transform log_1 0, Transform log_2 0, Transform log_3 1, Transform log_4 1,
         Settle 0 (Inr (items_ok 2)) 5, Settle 1 (Inl connection_refused) 6,
         Transform log_5 7])
     = Some Accepting"
  by (simp add: uploader_unfold items_ok_def)

subsection \<open>The promises a waiting method has taken\<close>






subsection \<open>A bulk request that throws\<close>














end
